theory Spec2Isabelle
  imports Complex_Main
begin

section \<open>Errors, clocks and stored values\<close>

text \<open>
  The exceptions of \<^verbatim>\<open>ApiKeyManager.py\<close> that leave a public method. The class
  \<^verbatim>\<open>NoAvailableKeyError\<close> carries the message of its raise site; the f-string messages
  of \<^verbatim>\<open>ApiKeyManagerError\<close> are built from the key as the source does.
  \<^verbatim>\<open>OverflowError\<close> is what \<^verbatim>\<open>datetime\<close> arithmetic raises outside the years 1 to
  9999, and \<^verbatim>\<open>AttributeError\<close> what \<^verbatim>\<open>.replace\<close> raises on a value that is not a
  string; the source catches neither in the reset check.
\<close>

datatype error =
    ValueError string
  | ApiKeyManagerError string
  | NoAvailableKeyError string
  | OverflowError
  | AttributeError

definition quoted :: "string \<Rightarrow> string" where
  "quoted k = CHR 0x27 # k @ [CHR 0x27]"

definition msg_exists :: "string \<Rightarrow> string" where
  "msg_exists k = ''API key '' @ quoted k @ '' already exists.''"

definition msg_not_found :: "string \<Rightarrow> string" where
  "msg_not_found k = ''API key '' @ quoted k @ '' not found.''"

definition msg_unknown :: "string \<Rightarrow> string" where
  "msg_unknown k = ''Attempted to record usage for unknown key: '' @ k"

text \<open>
  A \<^verbatim>\<open>datetime\<close> is its calendar fields, counted in microseconds from the midnight
  that starts the epoch day, and its \<^verbatim>\<open>tzinfo\<close>: the offset from UTC in microseconds,
  or \<open>None\<close> for a naive value. The calendar fields of a \<^verbatim>\<open>datetime\<close> lie between
  0001-01-01T00:00:00 and 9999-12-31T23:59:59.999999; arithmetic that leaves this range
  raises \<^verbatim>\<open>OverflowError\<close>. The wall clock
  \<^verbatim>\<open>_get_now_utc()\<close> is a parameter \<open>now\<close> of each operation, the microseconds since
  the epoch in UTC; the monotonic clock \<^verbatim>\<open>time.monotonic()\<close> is a parameter
  \<open>mnow\<close>, in seconds.
\<close>

record datetime =
  wall :: int
  utcoffset :: "int option"

definition DAY :: int where
  "DAY = 86400000000"

definition HOUR :: int where
  "HOUR = 3600000000"

definition utc :: "int \<Rightarrow> datetime" where
  "utc now = \<lparr>wall = now, utcoffset = Some 0\<rparr>"

text \<open>\<^verbatim>\<open>if dt.tzinfo is None: dt = dt.replace(tzinfo=timezone.utc)\<close>\<close>

definition assume_utc :: "datetime \<Rightarrow> datetime" where
  "assume_utc dt = (case utcoffset dt of None \<Rightarrow> dt\<lparr>utcoffset := Some 0\<rparr> | Some _ \<Rightarrow> dt)"

text \<open>
  The point on the UTC timeline that an aware \<^verbatim>\<open>datetime\<close> denotes; comparisons of
  aware values compare these. It is only applied after \<open>assume_utc\<close>.
\<close>

definition instant :: "datetime \<Rightarrow> int" where
  "instant dt = wall dt - (case utcoffset dt of None \<Rightarrow> 0 | Some off \<Rightarrow> off)"

text \<open>
  The least and the greatest value of the calendar fields: day 1 of year 1 is 719162
  days before the epoch day, the last day of year 9999 is 2932896 days after it.
\<close>

definition MIN_WALL :: int where
  "MIN_WALL = - 719162 * DAY"

definition MAX_WALL :: int where
  "MAX_WALL = 2932896 * DAY + (DAY - 1)"

definition in_range :: "int \<Rightarrow> bool" where
  "in_range w = (MIN_WALL \<le> w \<and> w \<le> MAX_WALL)"

text \<open>
  \<^verbatim>\<open>dt + timedelta(days=n)\<close> moves the calendar fields and keeps the tzinfo.
  \<^verbatim>\<open>timedelta(days=n)\<close> raises \<^verbatim>\<open>OverflowError\<close> for more than 999999999 days in
  either direction, and the sum raises it when the moved fields leave the range.
\<close>

definition plus_days :: "datetime \<Rightarrow> int \<Rightarrow> error + datetime" where
  "plus_days dt n =
     (if \<not> (- 999999999 \<le> n \<and> n \<le> 999999999) then Inl OverflowError
      else if in_range (wall dt + n * DAY) then Inr (dt\<lparr>wall := wall dt + n * DAY\<rparr>)
      else Inl OverflowError)"

text \<open>
  \<^verbatim>\<open>datetime.combine(dt.date(), dt_time(h, tzinfo=timezone.utc))\<close>: the date is read off
  the calendar fields of \<open>dt\<close>, in its own offset.
\<close>

definition combine_date_hour :: "datetime \<Rightarrow> int \<Rightarrow> datetime" where
  "combine_date_hour dt h = \<lparr>wall = (wall dt div DAY) * DAY + h * HOUR, utcoffset = Some 0\<rparr>"

text \<open>
  The value under \<^verbatim>\<open>'last_reset_time'\<close>. The key may be absent. A value that is there
  is told apart by what the source does with it: the empty string (falsy, and rejected
  by \<^verbatim>\<open>fromisoformat\<close>), a non-empty string that \<^verbatim>\<open>fromisoformat\<close> rejects with
  \<^verbatim>\<open>ValueError\<close>, a string it accepts, given by the \<^verbatim>\<open>datetime\<close> it parses to, and a
  value that is not a string (JSON \<^verbatim>\<open>null\<close>, a number, a list), given by its truth value:
  \<^verbatim>\<open>null\<close>, 0 and the empty containers are falsy. \<^verbatim>\<open>isoformat()\<close> of a \<^verbatim>\<open>datetime\<close>
  is the string that parses back to it.
\<close>

datatype time_field = Absent | Empty | Malformed | Iso datetime | NonString bool

text \<open>
  \<^verbatim>\<open>datetime.fromisoformat(x.replace('Z', '+00:00'))\<close>: the \<^verbatim>\<open>datetime\<close>, or \<open>None\<close>
  when the expression raises, which is \<^verbatim>\<open>ValueError\<close> for a string and
  \<^verbatim>\<open>AttributeError\<close> for a value that is not a string (\<open>is_string\<close> tells which).
\<close>

fun fromisoformat :: "time_field \<Rightarrow> datetime option" where
  "fromisoformat (Iso dt) = Some dt"
| "fromisoformat _ = None"

fun is_string :: "time_field \<Rightarrow> bool" where
  "is_string Empty = True"
| "is_string Malformed = True"
| "is_string (Iso dt) = True"
| "is_string _ = False"

text \<open>\<^verbatim>\<open>not x\<close> for the result of \<^verbatim>\<open>self.data.get('last_reset_time')\<close>.\<close>

fun falsy :: "time_field \<Rightarrow> bool" where
  "falsy Absent = True"
| "falsy Empty = True"
| "falsy (NonString b) = (\<not> b)"
| "falsy _ = False"

fun is_iso :: "time_field \<Rightarrow> bool" where
  "is_iso (Iso dt) = True"
| "is_iso _ = False"

definition isoformat :: "datetime \<Rightarrow> time_field" where
  "isoformat dt = Iso dt"

record config =
  cfg_daily_limit :: "int option"
  cfg_requests_per_minute :: "int option"
  cfg_reset_hour_utc :: "int option"
  cfg_reset_interval_days :: "int option"

text \<open>
  The JSON file. A root object holds the three fields of the saved format, each of
  which may be missing, as may \<^verbatim>\<open>'usage_today'\<close> in a key record; the values that
  are there have the types that \<^verbatim>\<open>_save_data_internal\<close> writes. The key mapping is an
  association list in the order of the object's members.
\<close>

record file_obj =
  f_keys :: "(string \<times> int option) list option"
  f_config :: "config option"
  f_last_reset_time :: time_field

datatype file_content = NotJson | NotObject | Object file_obj

datatype level = INFO | WARNING | ERROR

text \<open>
  What an operation does besides changing the manager is recorded in a trace: each call
  of the \<^verbatim>\<open>logging\<close> module by its level, and each call of \<^verbatim>\<open>_save_data_internal\<close>.
\<close>

datatype event = Log level | SaveCall

section \<open>The manager\<close>

text \<open>
  The attributes of an \<^verbatim>\<open>ApiKeyManager\<close>, with \<^verbatim>\<open>self.data\<close> spread over its three
  entries, and the file at \<^verbatim>\<open>self.json_file\<close>: its content (\<open>None\<close> when there is no
  file) and whether writing it succeeds. \<^verbatim>\<open>data['keys']\<close> is a dict in insertion
  order, here an association list; \<^verbatim>\<open>_key_timestamps\<close> likewise.
\<close>

record manager =
  daily_limit :: "int option"
  requests_per_minute :: "int option"
  reset_hour_utc :: "int option"
  reset_interval_days :: "int option"
  data_keys :: "(string \<times> int) list"
  data_config :: config
  data_last_reset_time :: time_field
  key_timestamps :: "(string \<times> real list) list"
  api_keys :: "string list"
  json_file :: "file_content option"
  writable :: bool
  trace :: "event list"

definition logging :: "level \<Rightarrow> manager \<Rightarrow> manager" where
  "logging l s = s\<lparr>trace := trace s @ [Log l]\<rparr>"

definition get_current_config :: "manager \<Rightarrow> config" where
  "get_current_config s =
     \<lparr>cfg_daily_limit = daily_limit s,
      cfg_requests_per_minute = requests_per_minute s,
      cfg_reset_hour_utc = reset_hour_utc s,
      cfg_reset_interval_days = reset_interval_days s\<rparr>"

text \<open>\<^verbatim>\<open>json.dump(self.data, f)\<close>\<close>

definition dump :: "manager \<Rightarrow> file_content" where
  "dump s = Object
     \<lparr>f_keys = Some (map (\<lambda>(k, u). (k, Some u)) (data_keys s)),
      f_config = Some (data_config s),
      f_last_reset_time = data_last_reset_time s\<rparr>"

text \<open>
  \<^verbatim>\<open>_save_data_internal\<close>. Reading \<^verbatim>\<open>self.data['last_reset_time']\<close> when the key is
  absent raises \<^verbatim>\<open>KeyError\<close>, which only the outer handler catches: the error is
  logged and nothing is written. A value that does not parse, a string
  (\<^verbatim>\<open>ValueError\<close>) or not (\<^verbatim>\<open>AttributeError\<close>), is replaced by the current time. A
  failed write is logged and leaves the file as it was. From the load
  on \<^verbatim>\<open>self.data\<close> is a dict with entries, so the guard \<^verbatim>\<open>if not self.data\<close> of this
  method and of the reset check never fires and has no branch here.
\<close>

definition save_data_internal :: "manager \<Rightarrow> int \<Rightarrow> manager" where
  "save_data_internal s now =
     (let s0 = s\<lparr>trace := trace s @ [SaveCall]\<rparr>;
          s1 = s0\<lparr>data_config := get_current_config s0\<rparr>
      in case data_last_reset_time s1 of
           Absent \<Rightarrow> logging ERROR s1
         | t \<Rightarrow>
             (let s2 = (case fromisoformat t of
                          Some _ \<Rightarrow> s1
                        | None \<Rightarrow> (logging ERROR s1)\<lparr>data_last_reset_time := isoformat (utc now)\<rparr>)
              in if writable s2 then s2\<lparr>json_file := Some (dump s2)\<rparr>
                 else logging ERROR s2))"

section \<open>Reset scheduling\<close>

datatype reason = IntervalDays int | ResetHour int

text \<open>
  Lines 236 to 245 of \<^verbatim>\<open>_check_and_reset_internal\<close>: whether a reset is needed, and
  why. The two sums with a \<^verbatim>\<open>timedelta\<close> may raise \<^verbatim>\<open>OverflowError\<close>, and
  \<^verbatim>\<open>dt_time(hour, tzinfo=timezone.utc)\<close> raises \<^verbatim>\<open>ValueError\<close> for an hour outside
  0..23; nothing catches them.
\<close>

definition reset_needed ::
  "int option \<Rightarrow> int option \<Rightarrow> datetime \<Rightarrow> int \<Rightarrow> error + reason option" where
  "reset_needed interval_days hour_utc last_reset now =
     (case (case interval_days of
              None \<Rightarrow> Inr None
            | Some n \<Rightarrow>
                (case plus_days last_reset n of
                   Inl e \<Rightarrow> Inl e
                 | Inr due \<Rightarrow> Inr (if now \<ge> instant due then Some (IntervalDays n) else None))) of
        Inl e \<Rightarrow> Inl e
      | Inr (Some r) \<Rightarrow> Inr (Some r)
      | Inr None \<Rightarrow>
          (case hour_utc of
             None \<Rightarrow> Inr None
           | Some h \<Rightarrow>
               if 0 \<le> h \<and> h \<le> 23 then
                 (let potential = combine_date_hour last_reset h
                  in case (if instant potential \<le> instant last_reset
                           then plus_days potential 1 else Inr potential) of
                       Inl e \<Rightarrow> Inl e
                     | Inr next_reset \<Rightarrow>
                         if now \<ge> instant next_reset then Inr (Some (ResetHour h)) else Inr None)
               else Inl (ValueError ''hour must be in 0..23'')))"

text \<open>The loop that zeroes the counters that are not zero already.\<close>

fun reset_usage :: "(string \<times> int) list \<Rightarrow> (string \<times> int) list" where
  "reset_usage [] = []"
| "reset_usage ((k, u) # rest) = (if u \<noteq> 0 then (k, 0) else (k, u)) # reset_usage rest"

text \<open>
  \<^verbatim>\<open>_check_and_reset_internal\<close>. An operation returns what it returns or raises,
  together with the manager as the call leaves it: a raise does not undo what was done
  before it.
\<close>

definition check_and_reset_internal :: "manager \<Rightarrow> int \<Rightarrow> (error + unit) \<times> manager" where
  "check_and_reset_internal s now =
     (let s1 = (if falsy (data_last_reset_time s)
                then (logging ERROR s)\<lparr>data_last_reset_time := isoformat (utc now)\<rparr>
                else s)
      in if \<not> is_string (data_last_reset_time s1) then (Inl AttributeError, s1)
         else
           (case fromisoformat (data_last_reset_time s1) of
              None \<Rightarrow>
                (Inr (), (logging ERROR s1)\<lparr>data_last_reset_time := isoformat (utc now)\<rparr>)
            | Some dt \<Rightarrow>
                (case reset_needed (reset_interval_days s1) (reset_hour_utc s1) (assume_utc dt) now of
                   Inl e \<Rightarrow> (Inl e, s1)
                 | Inr None \<Rightarrow> (Inr (), s1)
                 | Inr (Some r) \<Rightarrow>
                     (let s2 = logging INFO s1;
                          s3 = s2\<lparr>data_keys := reset_usage (data_keys s2)\<rparr>;
                          s4 = s3\<lparr>data_last_reset_time := isoformat (utc now)\<rparr>;
                          s5 = logging INFO s4
                      in (Inr (), save_data_internal s5 now)))))"

section \<open>The rate window\<close>

fun cleanup_entries :: "real \<Rightarrow> (string \<times> real list) list \<Rightarrow> (string \<times> real list) list" where
  "cleanup_entries cutoff [] = []"
| "cleanup_entries cutoff ((key, tss) # rest) =
     (let valid_timestamps = filter (\<lambda>ts. ts \<ge> cutoff) tss
      in if valid_timestamps = [] then cleanup_entries cutoff rest
         else (key, valid_timestamps) # cleanup_entries cutoff rest)"

text \<open>
  \<^verbatim>\<open>_cleanup_timestamps_internal\<close>: \<^verbatim>\<open>if not self.requests_per_minute: return\<close> leaves
  at once for \<open>None\<close> and for 0.
\<close>

definition cleanup_timestamps_internal :: "manager \<Rightarrow> real \<Rightarrow> manager" where
  "cleanup_timestamps_internal s mnow =
     (if requests_per_minute s = None \<or> requests_per_minute s = Some 0 then s
      else s\<lparr>key_timestamps := cleanup_entries (mnow - 60) (key_timestamps s)\<rparr>)"

text \<open>\<^verbatim>\<open>self._key_timestamps.get(key, [])\<close>\<close>

definition timestamps_get :: "(string \<times> real list) list \<Rightarrow> string \<Rightarrow> real list" where
  "timestamps_get kts key = (case map_of kts key of None \<Rightarrow> [] | Some tss \<Rightarrow> tss)"

text \<open>\<^verbatim>\<open>self._key_timestamps[key].append(t)\<close> on a \<^verbatim>\<open>defaultdict(list)\<close>\<close>

fun timestamps_append :: "string \<Rightarrow> real \<Rightarrow> (string \<times> real list) list \<Rightarrow> (string \<times> real list) list" where
  "timestamps_append key t [] = [(key, [t])]"
| "timestamps_append key t ((k, tss) # rest) =
     (if k = key then (k, tss @ [t]) # rest else (k, tss) # timestamps_append key t rest)"

section \<open>Public operations\<close>

text \<open>
  An argument passed as \<^verbatim>\<open>api_key\<close>: a string, or some object that is not a string.
\<close>

datatype key_arg = Str string | NonStr

definition invalid_key :: "key_arg \<Rightarrow> bool" where
  "invalid_key a = (case a of NonStr \<Rightarrow> True | Str k \<Rightarrow> k = [])"

definition has_key :: "manager \<Rightarrow> string \<Rightarrow> bool" where
  "has_key s k = (k \<in> set (map fst (data_keys s)))"

definition add_key :: "manager \<Rightarrow> int \<Rightarrow> key_arg \<Rightarrow> (error + unit) \<times> manager" where
  "add_key s now api_key =
     (case api_key of
        NonStr \<Rightarrow> (Inl (ValueError ''API key must be a non-empty string.''), s)
      | Str k \<Rightarrow>
          if k = [] then (Inl (ValueError ''API key must be a non-empty string.''), s)
          else
            (case check_and_reset_internal s now of
               (Inl e, s1) \<Rightarrow> (Inl e, s1)
             | (Inr _, s1) \<Rightarrow>
                 if has_key s1 k then (Inl (ApiKeyManagerError (msg_exists k)), s1)
                 else
                   (let s2 = s1\<lparr>data_keys := data_keys s1 @ [(k, 0)]\<rparr>;
                        s3 = logging INFO s2
                    in (Inr (), save_data_internal s3 now))))"

definition remove_key :: "manager \<Rightarrow> int \<Rightarrow> string \<Rightarrow> (error + unit) \<times> manager" where
  "remove_key s now k =
     (case check_and_reset_internal s now of
        (Inl e, s1) \<Rightarrow> (Inl e, s1)
      | (Inr _, s1) \<Rightarrow>
          if \<not> has_key s1 k then (Inl (ApiKeyManagerError (msg_not_found k)), s1)
          else
            (let s2 = s1\<lparr>data_keys := filter (\<lambda>(k', u). k' \<noteq> k) (data_keys s1)\<rparr>;
                 s3 = s2\<lparr>key_timestamps := filter (\<lambda>(k', tss). k' \<noteq> k) (key_timestamps s2)\<rparr>;
                 s4 = logging INFO s3
             in (Inr (), save_data_internal s4 now)))"

text \<open>The \<^verbatim>\<open>for\<close> loop of \<^verbatim>\<open>get_key\<close>, with its two \<^verbatim>\<open>continue\<close> tests.\<close>

fun first_available ::
  "int option \<Rightarrow> int option \<Rightarrow> (string \<times> real list) list \<Rightarrow> (string \<times> int) list \<Rightarrow> string option" where
  "first_available dl rpm kts [] = None"
| "first_available dl rpm kts ((key, usage) # rest) =
     (if (case dl of None \<Rightarrow> False | Some d \<Rightarrow> usage \<ge> d)
      then first_available dl rpm kts rest
      else if (case rpm of None \<Rightarrow> False
               | Some r \<Rightarrow> int (length (timestamps_get kts key)) \<ge> r)
      then first_available dl rpm kts rest
      else Some key)"

definition get_key :: "manager \<Rightarrow> int \<Rightarrow> real \<Rightarrow> (error + string) \<times> manager" where
  "get_key s now mnow =
     (case check_and_reset_internal s now of
        (Inl e, s1) \<Rightarrow> (Inl e, s1)
      | (Inr _, s1) \<Rightarrow>
          (let s2 = cleanup_timestamps_internal s1 mnow
           in if data_keys s2 = [] then (Inl (NoAvailableKeyError ''No API keys configured.''), s2)
              else
                (case first_available (daily_limit s2) (requests_per_minute s2)
                        (key_timestamps s2) (data_keys s2) of
                   Some key \<Rightarrow> (Inr key, s2)
                 | None \<Rightarrow>
                     (Inl (NoAvailableKeyError ''All API keys have reached their usage limits.''),
                      s2))))"

text \<open>\<^verbatim>\<open>key_data['usage_today'] = key_data.get('usage_today', 0) + 1\<close> for the record of one key.\<close>

fun increment_usage :: "string \<Rightarrow> (string \<times> int) list \<Rightarrow> (string \<times> int) list" where
  "increment_usage key [] = []"
| "increment_usage key ((k, u) # rest) =
     (if k = key then (k, u + 1) # rest else (k, u) # increment_usage key rest)"

definition record_usage :: "manager \<Rightarrow> int \<Rightarrow> real \<Rightarrow> key_arg \<Rightarrow> (error + unit) \<times> manager" where
  "record_usage s now mnow api_key =
     (case api_key of
        NonStr \<Rightarrow> (Inr (), logging WARNING s)
      | Str k \<Rightarrow>
          if k = [] then (Inr (), logging WARNING s)
          else
            (case check_and_reset_internal s now of
               (Inl e, s1) \<Rightarrow> (Inl e, s1)
             | (Inr _, s1) \<Rightarrow>
                 if \<not> has_key s1 k then (Inl (ApiKeyManagerError (msg_unknown k)), s1)
                 else
                   (let s2 = s1\<lparr>data_keys := increment_usage k (data_keys s1)\<rparr>;
                        s3 = (if requests_per_minute s2 \<noteq> None
                              then s2\<lparr>key_timestamps := timestamps_append k mnow (key_timestamps s2)\<rparr>
                              else s2)
                    in (Inr (), save_data_internal s3 now))))"

definition get_usage_stats :: "manager \<Rightarrow> int \<Rightarrow> (error + (string \<times> int) list) \<times> manager" where
  "get_usage_stats s now =
     (case check_and_reset_internal s now of
        (Inl e, s1) \<Rightarrow> (Inl e, s1)
      | (Inr _, s1) \<Rightarrow> (Inr (data_keys s1), s1))"

section \<open>Construction\<close>

text \<open>
  One round of the merge loop of \<^verbatim>\<open>_load_or_initialize_data\<close>: the value an attribute
  gets from the constructor argument and the saved value, and what is logged.
\<close>

definition merge_param :: "int option \<Rightarrow> int option \<Rightarrow> int option \<times> event list" where
  "merge_param init_val saved_val =
     (case init_val of
        Some v \<Rightarrow>
          (Some v, if saved_val \<noteq> None \<and> init_val \<noteq> saved_val then [Log WARNING] else [])
      | None \<Rightarrow>
          (case saved_val of
             Some w \<Rightarrow> (Some w, [Log INFO])
           | None \<Rightarrow> (None, [])))"

definition merge_config :: "manager \<Rightarrow> config \<Rightarrow> config \<Rightarrow> manager" where
  "merge_config s init_args saved_config =
     (let m1 = merge_param (cfg_daily_limit init_args) (cfg_daily_limit saved_config);
          m2 = merge_param (cfg_requests_per_minute init_args) (cfg_requests_per_minute saved_config);
          m3 = merge_param (cfg_reset_hour_utc init_args) (cfg_reset_hour_utc saved_config);
          m4 = merge_param (cfg_reset_interval_days init_args) (cfg_reset_interval_days saved_config)
      in s\<lparr>daily_limit := fst m1,
            requests_per_minute := fst m2,
            reset_hour_utc := fst m3,
            reset_interval_days := fst m4,
            trace := trace s @ snd m1 @ snd m2 @ snd m3 @ snd m4\<rparr>)"

definition empty_config :: config where
  "empty_config =
     \<lparr>cfg_daily_limit = None, cfg_requests_per_minute = None,
      cfg_reset_hour_utc = None, cfg_reset_interval_days = None\<rparr>"

text \<open>Lines 181 to 183: the reset check and the cleanup that end the load.\<close>

definition after_load :: "manager \<Rightarrow> int \<Rightarrow> real \<Rightarrow> (error + unit) \<times> manager" where
  "after_load s now mnow =
     (case check_and_reset_internal s now of
        (Inl e, s1) \<Rightarrow> (Inl e, s1)
      | (Inr _, s1) \<Rightarrow> (Inr (), cleanup_timestamps_internal s1 mnow))"

text \<open>
  \<^verbatim>\<open>_load_or_initialize_data\<close>. Every exception inside the \<^verbatim>\<open>try\<close> block leaves as an
  \<^verbatim>\<open>ApiKeyManagerError\<close>; its message is cut to the fixed prefix. One of them is the
  \<^verbatim>\<open>AttributeError\<close> of a \<^verbatim>\<open>'last_reset_time'\<close> that is there and is not a string: the
  handler around the parse catches \<^verbatim>\<open>ValueError\<close> only. The reset check after the load
  is outside the \<^verbatim>\<open>try\<close> block, and what it raises leaves as it is.
\<close>

definition load_or_initialize_data ::
  "manager \<Rightarrow> config \<Rightarrow> int \<Rightarrow> real \<Rightarrow> (error + unit) \<times> manager" where
  "load_or_initialize_data s init_args now mnow =
     (let initial_reset_time_str = isoformat (utc now)
      in case json_file s of
           Some NotJson \<Rightarrow> (Inl (ApiKeyManagerError ''Error decoding JSON''), s)
         | Some NotObject \<Rightarrow> (Inl (ApiKeyManagerError ''Error loading data''), s)
         | Some (Object loaded_data) \<Rightarrow>
             (let keys0 = (case f_keys loaded_data of None \<Rightarrow> [] | Some ks \<Rightarrow> ks);
                  s1 = (if f_last_reset_time loaded_data = Absent then logging WARNING s else s);
                  lrt0 = (if f_last_reset_time loaded_data = Absent then initial_reset_time_str
                          else f_last_reset_time loaded_data);
                  saved_config = (case f_config loaded_data of None \<Rightarrow> empty_config | Some c \<Rightarrow> c);
                  s2 = merge_config s1 init_args saved_config;
                  s3 = (case fromisoformat lrt0 of Some _ \<Rightarrow> s2 | None \<Rightarrow> logging WARNING s2);
                  lrt1 = (case fromisoformat lrt0 of Some _ \<Rightarrow> lrt0 | None \<Rightarrow> initial_reset_time_str);
                  keys1 = map (\<lambda>(k, u). (k, case u of None \<Rightarrow> 0 | Some v \<Rightarrow> v)) keys0;
                  s4 = s3\<lparr>data_keys := keys1, data_config := saved_config,
                          data_last_reset_time := lrt1\<rparr>;
                  s5 = s4\<lparr>data_config := get_current_config s4\<rparr>;
                  s6 = logging INFO s5
              in if \<not> is_string lrt0 then (Inl (ApiKeyManagerError ''Error loading data''), s2)
                 else after_load s6 now mnow)
         | None \<Rightarrow>
             (let s1 = s\<lparr>daily_limit := cfg_daily_limit init_args,
                         requests_per_minute := cfg_requests_per_minute init_args,
                         reset_hour_utc := cfg_reset_hour_utc init_args,
                         reset_interval_days := cfg_reset_interval_days init_args\<rparr>;
                  s2 = s1\<lparr>data_keys := [], data_config := get_current_config s1,
                          data_last_reset_time := initial_reset_time_str\<rparr>;
                  s3 = logging INFO s2;
                  s4 = save_data_internal s3 now
              in after_load s4 now mnow))"

text \<open>
  \<^verbatim>\<open>__init__\<close>, for the file content \<open>fc\<close> found at the path and whether the path can
  be written. Before the load \<^verbatim>\<open>self.data\<close> is \<^verbatim>\<open>None\<close>: its three entries get
  placeholder values here, which the load overwrites before anything reads them.
\<close>

definition init ::
  "file_content option \<Rightarrow> bool \<Rightarrow> int option \<Rightarrow> int option \<Rightarrow> int option \<Rightarrow> int option
     \<Rightarrow> int \<Rightarrow> real \<Rightarrow> (error + unit) \<times> manager" where
  "init fc w dl rpm rh ri now mnow =
     (let init_args = \<lparr>cfg_daily_limit = dl, cfg_requests_per_minute = rpm,
                       cfg_reset_hour_utc = rh, cfg_reset_interval_days = ri\<rparr>;
          s = \<lparr>daily_limit = dl, requests_per_minute = rpm, reset_hour_utc = rh,
               reset_interval_days = ri, data_keys = [], data_config = init_args,
               data_last_reset_time = Absent, key_timestamps = [], api_keys = [],
               json_file = fc, writable = w, trace = []\<rparr>
      in case load_or_initialize_data s init_args now mnow of
           (Inl e, s1) \<Rightarrow> (Inl e, s1)
         | (Inr _, s1) \<Rightarrow>
             if (case reset_hour_utc s1 of None \<Rightarrow> False | Some h \<Rightarrow> \<not> (0 \<le> h \<and> h \<le> 23))
             then (Inl (ValueError ''reset_hour_utc must be between 0 and 23.''), s1)
             else if (case reset_interval_days s1 of None \<Rightarrow> False | Some n \<Rightarrow> n \<le> 0)
             then (Inl (ValueError ''reset_interval_days must be a positive integer.''), s1)
             else (Inr (), s1\<lparr>api_keys := map fst (data_keys s1)\<rparr>))"

section \<open>The vocabulary of the specification\<close>

text \<open>
  \<open>countInWindow(key)\<close>: the number of timestamps retained for the key, 0 when the key
  is not tracked.
\<close>

definition count_in_window :: "manager \<Rightarrow> string \<Rightarrow> nat" where
  "count_in_window s k = length (timestamps_get (key_timestamps s) k)"

text \<open>
  The eligibility of a key record as the specification words it: the daily limit is
  absent or the usage is below it, and the rate limit is absent or the window count is
  below it.
\<close>

definition eligible :: "manager \<Rightarrow> string \<times> int \<Rightarrow> bool" where
  "eligible s e =
     ((case daily_limit s of None \<Rightarrow> True | Some d \<Rightarrow> snd e < d) \<and>
      (case requests_per_minute s of None \<Rightarrow> True
       | Some r \<Rightarrow> int (count_in_window s (fst e)) < r))"

text \<open>The key \<open>k\<close> is the first eligible one in insertion order.\<close>

definition first_eligible :: "manager \<Rightarrow> string \<Rightarrow> bool" where
  "first_eligible s k =
     (\<exists>pre u post. data_keys s = pre @ (k, u) # post \<and> eligible s (k, u) \<and>
        (\<forall>e \<in> set pre. \<not> eligible s e))"

text \<open>
  A pool with a daily limit of 2 and a rate limit of 1: key \<open>a\<close> has used up its day,
  key \<open>b\<close> has one request in its window, key \<open>c\<close> is free.
\<close>

definition pool_abc :: manager where
  "pool_abc =
     \<lparr>daily_limit = Some 2, requests_per_minute = Some 1, reset_hour_utc = None,
      reset_interval_days = None,
      data_keys = [(''a'', 2), (''b'', 0), (''c'', 0)],
      data_config = \<lparr>cfg_daily_limit = Some 2, cfg_requests_per_minute = Some 1,
                     cfg_reset_hour_utc = None, cfg_reset_interval_days = None\<rparr>,
      data_last_reset_time = Iso (utc 0),
      key_timestamps = [(''b'', [100])], api_keys = [''a'', ''b'', ''c''],
      json_file = None, writable = True, trace = []\<rparr>"

text \<open>
  The two reset conditions as the specification words them, for the last reset time
  \<open>lrt\<close>: the interval is set and \<open>now\<close> is at least that many days after \<open>lrt\<close>; the
  hour is set and \<open>now\<close> has reached the next reset instant, which is that UTC hour on
  the date of \<open>lrt\<close>, or on the following date when the same-day instant is not
  strictly after \<open>lrt\<close>.
\<close>

definition interval_elapsed :: "int option \<Rightarrow> datetime \<Rightarrow> int \<Rightarrow> bool" where
  "interval_elapsed iv lrt now =
     (case iv of None \<Rightarrow> False | Some n \<Rightarrow> now \<ge> instant lrt + n * DAY)"

definition next_hour_instant :: "int \<Rightarrow> datetime \<Rightarrow> int" where
  "next_hour_instant h lrt =
     (let same_day = (wall lrt div DAY) * DAY + h * HOUR
      in if same_day > instant lrt then same_day else same_day + DAY)"

definition hour_reached :: "int option \<Rightarrow> datetime \<Rightarrow> int \<Rightarrow> bool" where
  "hour_reached hr lrt now =
     (case hr of None \<Rightarrow> False | Some h \<Rightarrow> now \<ge> next_hour_instant h lrt)"

text \<open>The check of \<^verbatim>\<open>__init__\<close> on the reset hour.\<close>

definition hour_valid :: "int option \<Rightarrow> bool" where
  "hour_valid hr = (case hr of None \<Rightarrow> True | Some h \<Rightarrow> 0 \<le> h \<and> h \<le> 23)"

definition zeroed :: "(string \<times> int) list \<Rightarrow> (string \<times> int) list" where
  "zeroed ks = map (\<lambda>(k, u). (k, 0)) ks"

text \<open>
  A pool that resets at 03:00 UTC, last reset at 04:00 on day 0, with one key used
  five times.
\<close>

definition pool_hour3 :: manager where
  "pool_hour3 =
     \<lparr>daily_limit = None, requests_per_minute = None, reset_hour_utc = Some 3,
      reset_interval_days = None,
      data_keys = [(''k'', 5)],
      data_config = \<lparr>cfg_daily_limit = None, cfg_requests_per_minute = None,
                     cfg_reset_hour_utc = Some 3, cfg_reset_interval_days = None\<rparr>,
      data_last_reset_time = Iso (utc (4 * HOUR)),
      key_timestamps = [], api_keys = [''k''],
      json_file = None, writable = True, trace = []\<rparr>"

text \<open>\<open>usageToday\<close> of a key: absent when the pool has no such key.\<close>

definition usage_today :: "manager \<Rightarrow> string \<Rightarrow> int option" where
  "usage_today s k = map_of (data_keys s) k"

text \<open>What one save adds to the trace: the call, and the logged error when the write fails.\<close>

definition save_trace :: "manager \<Rightarrow> event list" where
  "save_trace s = SaveCall # (if writable s then [] else [Log ERROR])"

text \<open>
  The resolution rule of the specification for one configuration field: the caller's
  value when it is present, otherwise the persisted value when it is present, otherwise
  absent.
\<close>

definition resolve :: "int option \<Rightarrow> int option \<Rightarrow> int option" where
  "resolve caller persisted = (case caller of Some v \<Rightarrow> Some v | None \<Rightarrow> persisted)"

text \<open>The configuration that the file persists: no field when there is no file or no \<^verbatim>\<open>'config'\<close>.\<close>

definition persisted_config :: "file_content option \<Rightarrow> config" where
  "persisted_config fc =
     (case fc of
        Some (Object obj) \<Rightarrow> (case f_config obj of Some c \<Rightarrow> c | None \<Rightarrow> empty_config)
      | _ \<Rightarrow> empty_config)"

text \<open>
  The file that the first manager of the demonstration leaves behind: limits 50 and 5,
  reset hour 3, two keys of which the first was used once.
\<close>

definition demo_file :: file_content where
  "demo_file = Object
     \<lparr>f_keys = Some [(''load_test_key_1'', Some 1), (''load_test_key_2'', Some 0)],
      f_config = Some \<lparr>cfg_daily_limit = Some 50, cfg_requests_per_minute = Some 5,
                       cfg_reset_hour_utc = Some 3, cfg_reset_interval_days = None\<rparr>,
      f_last_reset_time = Iso (utc 0)\<rparr>"

text \<open>
  Eviction as the specification words it, one tracked key after the other: the
  timestamps older than the cutoff are dropped, and an entry whose window is empty
  afterwards is dropped with its key.
\<close>

definition evict_stale :: "real \<Rightarrow> (string \<times> real list) list \<Rightarrow> (string \<times> real list) list" where
  "evict_stale cutoff kts =
     filter (\<lambda>(k, tss). tss \<noteq> [])
       (map (\<lambda>(k, tss). (k, filter (\<lambda>t. \<not> t < cutoff) tss)) kts)"

text \<open>The check of \<^verbatim>\<open>__init__\<close> on the reset interval.\<close>

definition interval_valid :: "int option \<Rightarrow> bool" where
  "interval_valid iv = (case iv of None \<Rightarrow> True | Some n \<Rightarrow> 0 < n)"

text \<open>
  A pool that resets every day and at 03:00 UTC, last reset at the start of day 0,
  with two keys in use.
\<close>

definition pool_daily :: manager where
  "pool_daily =
     \<lparr>daily_limit = Some 10, requests_per_minute = None, reset_hour_utc = Some 3,
      reset_interval_days = Some 1,
      data_keys = [(''k1'', 7), (''k2'', 0)],
      data_config = \<lparr>cfg_daily_limit = Some 10, cfg_requests_per_minute = None,
                     cfg_reset_hour_utc = Some 3, cfg_reset_interval_days = Some 1\<rparr>,
      data_last_reset_time = Iso (utc 0),
      key_timestamps = [], api_keys = [''k1'', ''k2''],
      json_file = None, writable = True, trace = []\<rparr>"

text \<open>A file whose \<^verbatim>\<open>'last_reset_time'\<close> does not parse, with nothing else in it.\<close>

definition broken_time_file :: file_content where
  "broken_time_file = Object \<lparr>f_keys = None, f_config = None, f_last_reset_time = Malformed\<rparr>"

text \<open>The file is there, is a JSON object, and its \<^verbatim>\<open>'last_reset_time'\<close> parses.\<close>

definition file_time_parses :: "file_content option \<Rightarrow> bool" where
  "file_time_parses fc =
     (case fc of Some (Object obj) \<Rightarrow> is_iso (f_last_reset_time obj) | _ \<Rightarrow> False)"

text \<open>The pool \<open>pool_abc\<close> after its \<^verbatim>\<open>'last_reset_time'\<close> was overwritten with text that does not parse.\<close>

definition pool_broken :: manager where
  "pool_broken = pool_abc\<lparr>data_last_reset_time := Malformed\<rparr>"

text \<open>
  When the date arithmetic of the reset check stays inside the range of \<^verbatim>\<open>datetime\<close>:
  the last reset time plus the interval, and the day after the same-day reset instant
  when that instant is not strictly after the last reset time.
\<close>

definition days_in_range :: "int \<Rightarrow> datetime \<Rightarrow> bool" where
  "days_in_range n dt =
     (- 999999999 \<le> n \<and> n \<le> 999999999 \<and> in_range (wall dt + n * DAY))"

definition interval_in_range :: "int option \<Rightarrow> datetime \<Rightarrow> bool" where
  "interval_in_range iv lrt = (case iv of None \<Rightarrow> True | Some n \<Rightarrow> days_in_range n lrt)"

definition hour_in_range :: "int option \<Rightarrow> datetime \<Rightarrow> bool" where
  "hour_in_range hr lrt =
     (case hr of
        None \<Rightarrow> True
      | Some h \<Rightarrow>
          (wall lrt div DAY) * DAY + h * HOUR > instant lrt \<or>
          in_range ((wall lrt div DAY) * DAY + h * HOUR + DAY))"

text \<open>The stored value parses to a \<^verbatim>\<open>datetime\<close> that carries its offset from UTC.\<close>

definition aware :: "time_field \<Rightarrow> bool" where
  "aware t = (case t of Iso dt \<Rightarrow> utcoffset dt \<noteq> None | _ \<Rightarrow> False)"

text \<open>The key is absent or its value is a string.\<close>

definition textual :: "time_field \<Rightarrow> bool" where
  "textual t = (case t of NonString b \<Rightarrow> False | _ \<Rightarrow> True)"

text \<open>
  The pool \<open>pool_hour3\<close> with a reset interval of 4000000 days on top of its reset
  hour.
\<close>

definition pool_far :: manager where
  "pool_far = pool_hour3\<lparr>reset_interval_days := Some 4000000\<rparr>"

text \<open>
  Two files with nothing but a \<^verbatim>\<open>'last_reset_time'\<close>: one holds a timestamp without an
  offset, for the midnight of the epoch day, the other holds \<^verbatim>\<open>null\<close>.
\<close>

definition naive_time_file :: file_content where
  "naive_time_file = Object
     \<lparr>f_keys = None, f_config = None,
      f_last_reset_time = Iso \<lparr>wall = 0, utcoffset = None\<rparr>\<rparr>"

definition null_time_file :: file_content where
  "null_time_file = Object
     \<lparr>f_keys = None, f_config = None, f_last_reset_time = NonString False\<rparr>"

text \<open>
  The manager that the constructor builds from \<open>naive_time_file\<close>, with no limits given
  and a file that can be written.
\<close>

definition naive_manager :: manager where
  "naive_manager =
     \<lparr>daily_limit = None, requests_per_minute = None, reset_hour_utc = None,
      reset_interval_days = None, data_keys = [],
      data_config = \<lparr>cfg_daily_limit = None, cfg_requests_per_minute = None,
                     cfg_reset_hour_utc = None, cfg_reset_interval_days = None\<rparr>,
      data_last_reset_time = Iso \<lparr>wall = 0, utcoffset = None\<rparr>,
      key_timestamps = [], api_keys = [],
      json_file = Some naive_time_file, writable = True, trace = [Log INFO]\<rparr>"

section \<open>Frame properties of saving and reconciliation\<close>



lemma save_frame:
  "daily_limit (save_data_internal s now) = daily_limit s"
  "requests_per_minute (save_data_internal s now) = requests_per_minute s"
  "reset_hour_utc (save_data_internal s now) = reset_hour_utc s"
  "reset_interval_days (save_data_internal s now) = reset_interval_days s"
  "data_keys (save_data_internal s now) = data_keys s"
  "key_timestamps (save_data_internal s now) = key_timestamps s"
  "api_keys (save_data_internal s now) = api_keys s"
  "writable (save_data_internal s now) = writable s"
  by (simp_all add: save_data_internal_def logging_def Let_def split: time_field.splits option.splits)

lemma save_iso:
  "data_last_reset_time s = Iso dt \<Longrightarrow>
   save_data_internal s now =
     (if writable s
      then s\<lparr>data_config := get_current_config s, trace := trace s @ [SaveCall],
             json_file := Some (dump (s\<lparr>data_config := get_current_config s\<rparr>))\<rparr>
      else s\<lparr>data_config := get_current_config s, trace := trace s @ [SaveCall, Log ERROR]\<rparr>)"
  by (simp add: save_data_internal_def logging_def Let_def get_current_config_def dump_def)

lemma reset_usage_eq: "reset_usage ks = map (\<lambda>(k, u). (k, 0)) ks"
  by (induction ks) auto

lemma reset_usage_fst: "map fst (reset_usage ks) = map fst ks"
  by (induction ks) auto

lemma check_frame:
  "daily_limit (snd (check_and_reset_internal s now)) = daily_limit s"
  "requests_per_minute (snd (check_and_reset_internal s now)) = requests_per_minute s"
  "reset_hour_utc (snd (check_and_reset_internal s now)) = reset_hour_utc s"
  "reset_interval_days (snd (check_and_reset_internal s now)) = reset_interval_days s"
  "key_timestamps (snd (check_and_reset_internal s now)) = key_timestamps s"
  "api_keys (snd (check_and_reset_internal s now)) = api_keys s"
  "writable (snd (check_and_reset_internal s now)) = writable s"
  "map fst (data_keys (snd (check_and_reset_internal s now))) = map fst (data_keys s)"
  by (simp_all add: check_and_reset_internal_def logging_def Let_def save_frame reset_usage_fst isoformat_def
      split: time_field.splits option.splits sum.splits)

lemma check_iso:
  assumes "data_last_reset_time s = Iso dt"
  shows "check_and_reset_internal s now =
     (case reset_needed (reset_interval_days s) (reset_hour_utc s) (assume_utc dt) now of
        Inl e \<Rightarrow> (Inl e, s)
      | Inr None \<Rightarrow> (Inr (), s)
      | Inr (Some r) \<Rightarrow>
          (Inr (), save_data_internal
             (s\<lparr>data_keys := reset_usage (data_keys s), data_last_reset_time := Iso (utc now),
                trace := trace s @ [Log INFO, Log INFO]\<rparr>) now))"
  using assms
  by (simp add: check_and_reset_internal_def Let_def logging_def isoformat_def
      split: sum.splits option.splits)

lemma check_falsy:
  assumes "falsy (data_last_reset_time s)"
  shows "check_and_reset_internal s now =
     check_and_reset_internal
       (s\<lparr>data_last_reset_time := Iso (utc now), trace := trace s @ [Log ERROR]\<rparr>) now"
proof -
  let ?r = "s\<lparr>data_last_reset_time := Iso (utc now), trace := trace s @ [Log ERROR]\<rparr>"
  have r: "data_last_reset_time ?r = Iso (utc now)"
    by simp
  show ?thesis
    unfolding check_iso [OF r] using assms
    by (simp add: check_and_reset_internal_def Let_def logging_def isoformat_def
        split: sum.splits option.splits)
qed

lemma check_not_string:
  assumes "data_last_reset_time s = NonString True"
  shows "check_and_reset_internal s now = (Inl AttributeError, s)"
  using assms by (simp add: check_and_reset_internal_def)

lemma check_malformed:
  "data_last_reset_time s = Malformed \<Longrightarrow>
   check_and_reset_internal s now =
     (Inr (), s\<lparr>data_last_reset_time := Iso (utc now), trace := trace s @ [Log ERROR]\<rparr>)"
  by (simp add: check_and_reset_internal_def logging_def isoformat_def)

lemma check_iso_is_iso:
  assumes "data_last_reset_time s = Iso dt"
  shows "is_iso (data_last_reset_time (snd (check_and_reset_internal s now)))"
  using assms
  by (simp add: check_iso [OF assms] save_iso split: sum.splits option.splits)

lemma check_textual_is_iso:
  assumes "data_last_reset_time s \<noteq> NonString True"
  shows "is_iso (data_last_reset_time (snd (check_and_reset_internal s now)))"
proof (cases "data_last_reset_time s")
  case (Iso dt)
  then show ?thesis by (rule check_iso_is_iso)
next
  case Malformed
  then show ?thesis by (simp add: check_malformed)
next
  case Absent
  then show ?thesis
    using check_falsy [of s now] check_iso_is_iso [of "s\<lparr>data_last_reset_time := Iso (utc now),
      trace := trace s @ [Log ERROR]\<rparr>" "utc now" now]
    by simp
next
  case Empty
  then show ?thesis
    using check_falsy [of s now] check_iso_is_iso [of "s\<lparr>data_last_reset_time := Iso (utc now),
      trace := trace s @ [Log ERROR]\<rparr>" "utc now" now]
    by simp
next
  case (NonString b)
  then have "\<not> b" using assms by (cases b) simp_all
  then show ?thesis
    using NonString check_falsy [of s now] check_iso_is_iso [of "s\<lparr>data_last_reset_time := Iso (utc now),
      trace := trace s @ [Log ERROR]\<rparr>" "utc now" now]
    by simp
qed

lemma check_ok_is_iso:
  assumes "fst (check_and_reset_internal s now) = Inr ()"
  shows "is_iso (data_last_reset_time (snd (check_and_reset_internal s now)))"
proof -
  have "data_last_reset_time s \<noteq> NonString True"
    using assms check_not_string [of s now] by auto
  then show ?thesis by (rule check_textual_is_iso)
qed

lemma first_available_find:
  "first_available (daily_limit s) (requests_per_minute s) (key_timestamps s) ks =
     map_option fst (find (eligible s) ks)"
  by (induction ks) (auto simp: eligible_def count_in_window_def split: option.splits)

lemma first_eligible_find:
  "first_eligible s k \<longleftrightarrow> map_option fst (find (eligible s) (data_keys s)) = Some k"
proof
  assume "first_eligible s k"
  then obtain pre u post where d: "data_keys s = pre @ (k, u) # post" and e: "eligible s (k, u)"
    and n: "\<forall>e \<in> set pre. \<not> eligible s e"
    unfolding first_eligible_def by blast
  have "find (eligible s) (pre @ (k, u) # post) = Some (k, u)"
    using e n by (induction pre) auto
  then show "map_option fst (find (eligible s) (data_keys s)) = Some k"
    by (simp add: d)
next
  assume "map_option fst (find (eligible s) (data_keys s)) = Some k"
  then obtain u where f: "find (eligible s) (data_keys s) = Some (k, u)"
    by auto
  then obtain i where i: "i < length (data_keys s)" "eligible s (data_keys s ! i)"
      "(k, u) = data_keys s ! i" "\<forall>j<i. \<not> eligible s (data_keys s ! j)"
    unfolding find_Some_iff by blast
  let ?pre = "take i (data_keys s)" and ?post = "drop (Suc i) (data_keys s)"
  have "data_keys s = ?pre @ (k, u) # ?post"
    using i(1,3) by (simp add: id_take_nth_drop)
  moreover have "\<forall>e \<in> set ?pre. \<not> eligible s e"
  proof
    fix e assume "e \<in> set ?pre"
    then obtain j where "j < i" "e = data_keys s ! j"
      using i(1) by (auto simp: in_set_conv_nth)
    then show "\<not> eligible s e" using i(4) by simp
  qed
  ultimately show "first_eligible s k"
    unfolding first_eligible_def using i(2,3) by metis
qed

lemma find_None_all: "find P xs = None \<longleftrightarrow> (\<forall>x \<in> set xs. \<not> P x)"
  by (auto simp: find_None_iff)

section \<open>Selection\<close>

text \<open>
  Claim C1. After the reset check has returned and the stale timestamps are gone,
  \<open>get_key\<close> returns a key exactly when that key is the first one in insertion order
  whose usage is below the daily limit (or there is none) and whose window count is below
  the rate limit (or there is none). It raises \<open>NoAvailableKeyError\<close> with the message
  "No API keys configured." for an empty pool, and with the different message "All API
  keys have reached their usage limits." when the pool has keys and none is eligible.
\<close>

theorem get_key_first_eligible:
  assumes "check_and_reset_internal s now = (Inr (), s1)"
    and "s2 = cleanup_timestamps_internal s1 mnow"
  shows "snd (get_key s now mnow) = s2 \<and>
    (data_keys s2 = [] \<longrightarrow>
       fst (get_key s now mnow) = Inl (NoAvailableKeyError ''No API keys configured.'')) \<and>
    (\<forall>k. fst (get_key s now mnow) = Inr k \<longleftrightarrow> first_eligible s2 k) \<and>
    (data_keys s2 \<noteq> [] \<and> (\<forall>e \<in> set (data_keys s2). \<not> eligible s2 e) \<longrightarrow>
       fst (get_key s now mnow) =
         Inl (NoAvailableKeyError ''All API keys have reached their usage limits.'')) \<and>
    ''No API keys configured.'' \<noteq> ''All API keys have reached their usage limits.''"
proof -
  let ?f = "find (eligible s2) (data_keys s2)"
  have g: "get_key s now mnow =
     (if data_keys s2 = [] then (Inl (NoAvailableKeyError ''No API keys configured.''), s2)
      else case map_option fst ?f of
             Some key \<Rightarrow> (Inr key, s2)
           | None \<Rightarrow> (Inl (NoAvailableKeyError ''All API keys have reached their usage limits.''), s2))"
    unfolding assms(2) using assms(1)
    by (simp add: get_key_def Let_def first_available_find split: option.splits)
  have 1: "snd (get_key s now mnow) = s2"
    by (simp add: g split: option.splits)
  have 2: "data_keys s2 = [] \<longrightarrow>
       fst (get_key s now mnow) = Inl (NoAvailableKeyError ''No API keys configured.'')"
    by (simp add: g)
  have 3: "fst (get_key s now mnow) = Inr k \<longleftrightarrow> first_eligible s2 k" for k
    unfolding first_eligible_find by (auto simp: g split: option.splits)
  have 4: "data_keys s2 \<noteq> [] \<and> (\<forall>e \<in> set (data_keys s2). \<not> eligible s2 e) \<longrightarrow>
       fst (get_key s now mnow) =
         Inl (NoAvailableKeyError ''All API keys have reached their usage limits.'')"
  proof
    assume a: "data_keys s2 \<noteq> [] \<and> (\<forall>e \<in> set (data_keys s2). \<not> eligible s2 e)"
    then have "?f = None" by (simp add: find_None_all)
    then show "fst (get_key s now mnow) =
         Inl (NoAvailableKeyError ''All API keys have reached their usage limits.'')"
      using a by (simp add: g)
  qed
  have 5: "''No API keys configured.'' \<noteq> ''All API keys have reached their usage limits.''"
    by simp
  show ?thesis using 1 2 3 4 5 by blast
qed

theorem get_key_first_eligible_witness:
  "check_and_reset_internal pool_abc 0 = (Inr (), pool_abc) \<and>
   fst (get_key pool_abc 0 120) = Inr ''c'' \<and>
   first_eligible (cleanup_timestamps_internal pool_abc 120) ''c''"
proof -
  have h: "check_and_reset_internal pool_abc 0 = (Inr (), pool_abc)"
    by (simp add: check_and_reset_internal_def pool_abc_def reset_needed_def)
  have c: "cleanup_timestamps_internal pool_abc 120 = pool_abc"
    by (simp add: cleanup_timestamps_internal_def pool_abc_def)
  have g: "fst (get_key pool_abc 0 120) = Inr ''c''"
    by (simp add: get_key_def h c) (simp add: pool_abc_def timestamps_get_def)
  have "first_eligible (cleanup_timestamps_internal pool_abc 120) ''c''"
    using get_key_first_eligible [OF h refl, of 120] g by blast
  then show ?thesis
    using h g by simp
qed

section \<open>The reset schedule\<close>

lemma plus_days_in_range:
  "days_in_range n dt \<Longrightarrow> plus_days dt n = Inr (dt\<lparr>wall := wall dt + n * DAY\<rparr>)"
  by (simp add: plus_days_def days_in_range_def)

lemma plus_days_overflow:
  "\<not> days_in_range n dt \<Longrightarrow> plus_days dt n = Inl OverflowError"
  by (auto simp: plus_days_def days_in_range_def)

lemma instant_combine: "instant (combine_date_hour lrt h) = (wall lrt div DAY) * DAY + h * HOUR"
  by (simp add: instant_def combine_date_hour_def)

lemma next_day_in_range:
  "days_in_range 1 (combine_date_hour lrt h) = in_range ((wall lrt div DAY) * DAY + h * HOUR + DAY)"
  by (simp add: days_in_range_def combine_date_hour_def)

lemma reset_needed_interval_overflow:
  assumes "\<not> interval_in_range iv lrt"
  shows "reset_needed iv hr lrt now = Inl OverflowError"
proof -
  obtain n where n: "iv = Some n" "\<not> days_in_range n lrt"
    using assms by (auto simp: interval_in_range_def split: option.splits)
  show ?thesis
    by (simp add: reset_needed_def n plus_days_overflow)
qed

lemma reset_needed_interval_elapsed:
  assumes "interval_in_range iv lrt" and "interval_elapsed iv lrt now"
  shows "\<exists>n. iv = Some n \<and> reset_needed iv hr lrt now = Inr (Some (IntervalDays n))"
proof -
  obtain n where n: "iv = Some n" "days_in_range n lrt" "now \<ge> instant lrt + n * DAY"
    using assms by (auto simp: interval_in_range_def interval_elapsed_def split: option.splits)
  have "instant (lrt\<lparr>wall := wall lrt + n * DAY\<rparr>) = instant lrt + n * DAY"
    by (simp add: instant_def)
  then show ?thesis
    using n by (simp add: reset_needed_def plus_days_in_range)
qed

lemma reset_needed_interval_pending:
  assumes "interval_in_range iv lrt" and "\<not> interval_elapsed iv lrt now"
  shows "reset_needed iv hr lrt now =
     (case hr of
        None \<Rightarrow> Inr None
      | Some h \<Rightarrow>
          if 0 \<le> h \<and> h \<le> 23 then
            (let potential = combine_date_hour lrt h
             in case (if instant potential \<le> instant lrt
                      then plus_days potential 1 else Inr potential) of
                  Inl e \<Rightarrow> Inl e
                | Inr next_reset \<Rightarrow>
                    if now \<ge> instant next_reset then Inr (Some (ResetHour h)) else Inr None)
          else Inl (ValueError ''hour must be in 0..23''))"
proof (cases iv)
  case None
  then show ?thesis by (simp add: reset_needed_def)
next
  case (Some n)
  then have n: "days_in_range n lrt" "\<not> now \<ge> instant lrt + n * DAY"
    using assms by (auto simp: interval_in_range_def interval_elapsed_def)
  have "instant (lrt\<lparr>wall := wall lrt + n * DAY\<rparr>) = instant lrt + n * DAY"
    by (simp add: instant_def)
  then show ?thesis
    using n Some by (simp add: reset_needed_def plus_days_in_range)
qed

lemma reset_needed_hour_overflow:
  assumes "hour_valid hr" and "interval_in_range iv lrt" and "\<not> interval_elapsed iv lrt now"
    and "\<not> hour_in_range hr lrt"
  shows "reset_needed iv hr lrt now = Inl OverflowError"
proof -
  obtain h where h: "hr = Some h" "0 \<le> h \<and> h \<le> 23"
    "\<not> (wall lrt div DAY) * DAY + h * HOUR > instant lrt"
    "\<not> in_range ((wall lrt div DAY) * DAY + h * HOUR + DAY)"
    using assms(1,4) by (auto simp: hour_in_range_def hour_valid_def split: option.splits)
  have "plus_days (combine_date_hour lrt h) 1 = Inl OverflowError"
    using h(4) by (intro plus_days_overflow) (simp add: next_day_in_range)
  then show ?thesis
    using h by (simp add: reset_needed_interval_pending [OF assms(2,3)] instant_combine Let_def)
qed

lemma reset_needed_hour:
  assumes "hour_valid hr" and "interval_in_range iv lrt" and "\<not> interval_elapsed iv lrt now"
    and "hour_in_range hr lrt"
  shows "reset_needed iv hr lrt now =
     Inr (if hour_reached hr lrt now then map_option ResetHour hr else None)"
proof (cases hr)
  case None
  then show ?thesis
    by (simp add: reset_needed_interval_pending [OF assms(2,3)] hour_reached_def)
next
  case (Some h)
  then have h: "0 \<le> h \<and> h \<le> 23"
    and r: "(wall lrt div DAY) * DAY + h * HOUR > instant lrt \<or>
      in_range ((wall lrt div DAY) * DAY + h * HOUR + DAY)"
    using assms(1,4) by (auto simp: hour_in_range_def hour_valid_def)
  show ?thesis
  proof (cases "(wall lrt div DAY) * DAY + h * HOUR > instant lrt")
    case True
    then show ?thesis
      using Some h
      by (simp add: reset_needed_interval_pending [OF assms(2,3)] instant_combine Let_def
          hour_reached_def next_hour_instant_def)
  next
    case False
    then have "days_in_range 1 (combine_date_hour lrt h)"
      using r by (simp add: next_day_in_range)
    then have "plus_days (combine_date_hour lrt h) 1 =
        Inr ((combine_date_hour lrt h)\<lparr>wall := wall (combine_date_hour lrt h) + 1 * DAY\<rparr>)"
      by (rule plus_days_in_range)
    moreover have "instant ((combine_date_hour lrt h)\<lparr>wall := wall (combine_date_hour lrt h) + 1 * DAY\<rparr>)
        = (wall lrt div DAY) * DAY + h * HOUR + DAY"
      by (simp add: instant_def combine_date_hour_def)
    ultimately show ?thesis
      using Some h False
      by (simp add: reset_needed_interval_pending [OF assms(2,3)] instant_combine Let_def
          hour_reached_def next_hour_instant_def)
  qed
qed

lemma check_raises:
  assumes "data_last_reset_time s = Iso dt"
    and "reset_needed (reset_interval_days s) (reset_hour_utc s) (assume_utc dt) now = Inl e"
  shows "check_and_reset_internal s now = (Inl e, s)"
  using assms by (simp add: check_iso)

lemma check_no_reset:
  assumes "data_last_reset_time s = Iso dt"
    and "reset_needed (reset_interval_days s) (reset_hour_utc s) (assume_utc dt) now = Inr None"
  shows "check_and_reset_internal s now = (Inr (), s)"
  using assms by (simp add: check_iso)

lemma check_reset:
  assumes "data_last_reset_time s = Iso dt"
    and "reset_needed (reset_interval_days s) (reset_hour_utc s) (assume_utc dt) now = Inr (Some r)"
  shows "check_and_reset_internal s now =
     (Inr (), save_data_internal
        (s\<lparr>data_keys := zeroed (data_keys s), data_last_reset_time := Iso (utc now),
           trace := trace s @ [Log INFO, Log INFO]\<rparr>) now)"
  using assms by (simp add: check_iso reset_usage_eq zeroed_def)

lemma check_reset_fields:
  assumes "data_last_reset_time s = Iso dt"
    and "reset_needed (reset_interval_days s) (reset_hour_utc s) (assume_utc dt) now = Inr (Some r)"
  shows "fst (check_and_reset_internal s now) = Inr ()"
    and "data_keys (snd (check_and_reset_internal s now)) = zeroed (data_keys s)"
    and "data_last_reset_time (snd (check_and_reset_internal s now)) = Iso (utc now)"
    and "trace (snd (check_and_reset_internal s now)) =
           trace s @ [Log INFO, Log INFO, SaveCall] @ (if writable s then [] else [Log ERROR])"
  by (simp_all add: check_reset [OF assms] save_frame save_iso [where dt = "utc now"])

lemma scenario_hour3:
  assumes "in_range ((d + 1) * DAY + 3 * HOUR)"
    and "iv = None \<or> (\<exists>n\<ge>1. iv = Some n \<and> days_in_range n (utc (d * DAY + 4 * HOUR)))"
  shows "reset_needed iv (Some 3) (utc (d * DAY + 4 * HOUR)) ((d + 1) * DAY + 2 * HOUR) = Inr None"
    and "reset_needed iv (Some 3) (utc (d * DAY + 4 * HOUR)) ((d + 1) * DAY + 3 * HOUR + 60000000)
           = Inr (Some (ResetHour 3))"
proof -
  let ?lrt = "utc (d * DAY + 4 * HOUR)"
  have dv: "(d * DAY + 4 * HOUR) div DAY = d"
    by (simp add: DAY_def HOUR_def)
  have v: "hour_valid (Some 3)"
    by (simp add: hour_valid_def)
  have ir: "interval_in_range iv ?lrt"
    using assms(2) by (auto simp: interval_in_range_def)
  have ie: "\<not> interval_elapsed iv ?lrt t" if "t \<le> (d + 1) * DAY + 4 * HOUR - 1" for t
  proof -
    have "n * DAY \<ge> DAY" if "n \<ge> 1" for n :: int
      using that by (simp add: DAY_def)
    then show ?thesis
      using assms(2) that
      by (fastforce simp: interval_elapsed_def utc_def instant_def algebra_simps)
  qed
  have w: "(wall ?lrt div DAY) * DAY = d * DAY"
    using dv by (simp add: utc_def)
  have eq: "d * DAY + 3 * HOUR + DAY = (d + 1) * DAY + 3 * HOUR"
    by (simp add: algebra_simps)
  have "in_range (d * DAY + 3 * HOUR + DAY)"
    using assms(1) by (simp only: eq)
  then have hr: "hour_in_range (Some 3) ?lrt"
    unfolding hour_in_range_def w by simp
  have nx: "next_hour_instant 3 ?lrt = (d + 1) * DAY + 3 * HOUR"
    unfolding next_hour_instant_def w
    by (simp add: utc_def instant_def HOUR_def algebra_simps)
  have a: "\<not> interval_elapsed iv ?lrt ((d + 1) * DAY + 2 * HOUR)"
    by (rule ie) (simp add: HOUR_def)
  have b: "\<not> interval_elapsed iv ?lrt ((d + 1) * DAY + 3 * HOUR + 60000000)"
    by (rule ie) (simp add: HOUR_def)
  have "(2::int) * HOUR < 3 * HOUR"
    by (simp add: HOUR_def)
  then have h2: "\<not> hour_reached (Some 3) ?lrt ((d + 1) * DAY + 2 * HOUR)"
    by (simp add: hour_reached_def nx)
  have h3: "hour_reached (Some 3) ?lrt ((d + 1) * DAY + 3 * HOUR + 60000000)"
    by (simp add: hour_reached_def nx)
  show "reset_needed iv (Some 3) ?lrt ((d + 1) * DAY + 2 * HOUR) = Inr None"
    using reset_needed_hour [OF v ir a hr] h2 by simp
  show "reset_needed iv (Some 3) ?lrt ((d + 1) * DAY + 3 * HOUR + 60000000)
           = Inr (Some (ResetHour 3))"
    using reset_needed_hour [OF v ir b hr] h3 by simp
qed

text \<open>
  Claim C2 fails as stated: the sum of the last reset time and the interval is a
  \<^verbatim>\<open>datetime\<close>, and it does not exist beyond the year 9999. In the pool below the
  interval is 4000000 days and the reset hour is 3, the last reset was at 04:00 UTC on
  the epoch day, and it is 03:01 UTC on the next day. The interval has not elapsed and
  the next reset instant has been reached, so the claim has a reset; the check raises
  \<^verbatim>\<open>OverflowError\<close> when it adds the interval, and the counter keeps its 5.
\<close>

theorem reset_check_overflows:
  "data_last_reset_time pool_far = Iso (utc (4 * HOUR)) \<and>
   reset_interval_days pool_far = Some 4000000 \<and>
   reset_hour_utc pool_far = Some 3 \<and>
   \<not> interval_elapsed (Some 4000000) (assume_utc (utc (4 * HOUR))) (DAY + 3 * HOUR + 60000000) \<and>
   hour_reached (Some 3) (assume_utc (utc (4 * HOUR))) (DAY + 3 * HOUR + 60000000) \<and>
   check_and_reset_internal pool_far (DAY + 3 * HOUR + 60000000) = (Inl OverflowError, pool_far) \<and>
   data_keys pool_far = [(''k'', 5)]"
proof -
  have f: "data_last_reset_time pool_far = Iso (utc (4 * HOUR))"
    "reset_interval_days pool_far = Some 4000000" "reset_hour_utc pool_far = Some 3"
    "data_keys pool_far = [(''k'', 5)]"
    by (simp_all add: pool_far_def pool_hour3_def)
  have i: "\<not> interval_elapsed (Some 4000000) (assume_utc (utc (4 * HOUR))) (DAY + 3 * HOUR + 60000000)"
    by (simp add: interval_elapsed_def assume_utc_def utc_def instant_def DAY_def HOUR_def)
  have h: "hour_reached (Some 3) (assume_utc (utc (4 * HOUR))) (DAY + 3 * HOUR + 60000000)"
    by (simp add: hour_reached_def next_hour_instant_def assume_utc_def utc_def instant_def
        DAY_def HOUR_def)
  have "\<not> interval_in_range (Some 4000000) (assume_utc (utc (4 * HOUR)))"
    by (simp add: interval_in_range_def days_in_range_def in_range_def MAX_WALL_def MIN_WALL_def
        assume_utc_def utc_def DAY_def HOUR_def)
  then have "reset_needed (reset_interval_days pool_far) (reset_hour_utc pool_far)
      (assume_utc (utc (4 * HOUR))) (DAY + 3 * HOUR + 60000000) = Inl OverflowError"
    unfolding f by (rule reset_needed_interval_overflow)
  then have c: "check_and_reset_internal pool_far (DAY + 3 * HOUR + 60000000)
      = (Inl OverflowError, pool_far)"
    by (rule check_raises [OF f(1)])
  show ?thesis
    by (intro conjI) (rule f(1), rule f(2), rule f(3), rule i, rule h, rule c, rule f(4))
qed

text \<open>
  Claim C2, amended. Take a last reset time that parses (read as UTC when it is naive)
  and a reset hour that passed the constructor's check. As long as the date arithmetic
  stays inside the years 1 to 9999, the reset check decides in the order of the claim:
  when the interval is set and has elapsed the reason is the interval; only otherwise,
  when the hour is set and \<open>now\<close> has reached the next reset instant (that hour on the
  date of the last reset, or on the following date when the same-day instant is not
  strictly after the last reset), the reason is the hour; otherwise the check returns
  and nothing changes. A reset, for either reason, happens once: the counters are zero,
  the last reset time is \<open>now\<close>, and the trace gains the two log lines and the single
  save of one reset. When the last reset time plus the interval leaves the range, or
  the interval has not elapsed and the following date is needed and leaves it, the
  check raises \<^verbatim>\<open>OverflowError\<close> and changes nothing. With the hour 3 and a last reset at
  04:00 UTC of some day, the next day's 02:00 gives no reset and the next day's 03:01
  gives the hour's reset, for no interval or any interval of at least one day, inside
  the range.
\<close>

theorem reset_interval_before_hour:
  assumes "data_last_reset_time s = Iso dt"
    and "hour_valid (reset_hour_utc s)"
    and "lrt = assume_utc dt"
    and "iv = reset_interval_days s"
    and "hr = reset_hour_utc s"
    and "s' = snd (check_and_reset_internal s now)"
  shows "(\<not> interval_in_range iv lrt \<longrightarrow>
       check_and_reset_internal s now = (Inl OverflowError, s)) \<and>
    (interval_in_range iv lrt \<and> interval_elapsed iv lrt now \<longrightarrow>
       (\<exists>n. iv = Some n \<and> reset_needed iv hr lrt now = Inr (Some (IntervalDays n)))) \<and>
    (interval_in_range iv lrt \<and> \<not> interval_elapsed iv lrt now \<and> \<not> hour_in_range hr lrt \<longrightarrow>
       check_and_reset_internal s now = (Inl OverflowError, s)) \<and>
    (interval_in_range iv lrt \<and> \<not> interval_elapsed iv lrt now \<and> hour_in_range hr lrt \<and>
     hour_reached hr lrt now \<longrightarrow>
       (\<exists>h. hr = Some h \<and> reset_needed iv hr lrt now = Inr (Some (ResetHour h)))) \<and>
    (interval_in_range iv lrt \<and> \<not> interval_elapsed iv lrt now \<and> hour_in_range hr lrt \<and>
     \<not> hour_reached hr lrt now \<longrightarrow>
       reset_needed iv hr lrt now = Inr None \<and> check_and_reset_internal s now = (Inr (), s)) \<and>
    (interval_in_range iv lrt \<and>
     (interval_elapsed iv lrt now \<or> hour_in_range hr lrt \<and> hour_reached hr lrt now) \<longrightarrow>
       fst (check_and_reset_internal s now) = Inr () \<and>
       data_keys s' = zeroed (data_keys s) \<and>
       data_last_reset_time s' = Iso (utc now) \<and>
       trace s' = trace s @ [Log INFO, Log INFO, SaveCall]
                    @ (if writable s then [] else [Log ERROR])) \<and>
    (\<forall>d iv'. in_range ((d + 1) * DAY + 3 * HOUR) \<and>
        (iv' = None \<or> (\<exists>n\<ge>1. iv' = Some n \<and> days_in_range n (utc (d * DAY + 4 * HOUR)))) \<longrightarrow>
       reset_needed iv' (Some 3) (utc (d * DAY + 4 * HOUR)) ((d + 1) * DAY + 2 * HOUR) = Inr None \<and>
       reset_needed iv' (Some 3) (utc (d * DAY + 4 * HOUR)) ((d + 1) * DAY + 3 * HOUR + 60000000)
         = Inr (Some (ResetHour 3)))"
proof -
  have v: "hour_valid hr" using assms(2,5) by simp
  have l: "reset_needed (reset_interval_days s) (reset_hour_utc s) (assume_utc dt) now
      = reset_needed iv hr lrt now"
    by (simp add: assms(3,4,5))
  have a: "\<not> interval_in_range iv lrt \<longrightarrow>
       check_and_reset_internal s now = (Inl OverflowError, s)"
    using check_raises [OF assms(1), of now OverflowError] reset_needed_interval_overflow [of iv lrt hr now]
    unfolding l by blast
  have b: "interval_in_range iv lrt \<and> interval_elapsed iv lrt now \<longrightarrow>
       (\<exists>n. iv = Some n \<and> reset_needed iv hr lrt now = Inr (Some (IntervalDays n)))"
    using reset_needed_interval_elapsed [of iv lrt now hr] by blast
  have c: "interval_in_range iv lrt \<and> \<not> interval_elapsed iv lrt now \<and> \<not> hour_in_range hr lrt \<longrightarrow>
       check_and_reset_internal s now = (Inl OverflowError, s)"
    using check_raises [OF assms(1), of now OverflowError]
      reset_needed_hour_overflow [OF v, of iv lrt now]
    unfolding l by blast
  have d: "interval_in_range iv lrt \<and> \<not> interval_elapsed iv lrt now \<and> hour_in_range hr lrt \<and>
     hour_reached hr lrt now \<longrightarrow>
       (\<exists>h. hr = Some h \<and> reset_needed iv hr lrt now = Inr (Some (ResetHour h)))"
  proof
    assume h: "interval_in_range iv lrt \<and> \<not> interval_elapsed iv lrt now \<and> hour_in_range hr lrt \<and>
     hour_reached hr lrt now"
    then obtain x where "hr = Some x"
      by (auto simp: hour_reached_def split: option.splits)
    then show "\<exists>h. hr = Some h \<and> reset_needed iv hr lrt now = Inr (Some (ResetHour h))"
      using h reset_needed_hour [OF v, of iv lrt now] by simp
  qed
  have e: "interval_in_range iv lrt \<and> \<not> interval_elapsed iv lrt now \<and> hour_in_range hr lrt \<and>
     \<not> hour_reached hr lrt now \<longrightarrow>
       reset_needed iv hr lrt now = Inr None \<and> check_and_reset_internal s now = (Inr (), s)"
  proof
    assume h: "interval_in_range iv lrt \<and> \<not> interval_elapsed iv lrt now \<and> hour_in_range hr lrt \<and>
     \<not> hour_reached hr lrt now"
    then have r: "reset_needed iv hr lrt now = Inr None"
      using reset_needed_hour [OF v, of iv lrt now] by simp
    then show "reset_needed iv hr lrt now = Inr None \<and> check_and_reset_internal s now = (Inr (), s)"
      using check_no_reset [OF assms(1), of now] unfolding l by simp
  qed
  have f: "interval_in_range iv lrt \<and>
     (interval_elapsed iv lrt now \<or> hour_in_range hr lrt \<and> hour_reached hr lrt now) \<longrightarrow>
       fst (check_and_reset_internal s now) = Inr () \<and>
       data_keys s' = zeroed (data_keys s) \<and>
       data_last_reset_time s' = Iso (utc now) \<and>
       trace s' = trace s @ [Log INFO, Log INFO, SaveCall]
                    @ (if writable s then [] else [Log ERROR])"
  proof
    assume "interval_in_range iv lrt \<and>
     (interval_elapsed iv lrt now \<or> hour_in_range hr lrt \<and> hour_reached hr lrt now)"
    then obtain r where "reset_needed iv hr lrt now = Inr (Some r)"
      using b d by blast
    then have "reset_needed (reset_interval_days s) (reset_hour_utc s) (assume_utc dt) now
        = Inr (Some r)"
      unfolding l .
    from check_reset_fields [OF assms(1) this]
    show "fst (check_and_reset_internal s now) = Inr () \<and>
       data_keys s' = zeroed (data_keys s) \<and>
       data_last_reset_time s' = Iso (utc now) \<and>
       trace s' = trace s @ [Log INFO, Log INFO, SaveCall]
                    @ (if writable s then [] else [Log ERROR])"
      unfolding assms(6) by simp
  qed
  have g: "\<forall>d iv'. in_range ((d + 1) * DAY + 3 * HOUR) \<and>
        (iv' = None \<or> (\<exists>n\<ge>1. iv' = Some n \<and> days_in_range n (utc (d * DAY + 4 * HOUR)))) \<longrightarrow>
       reset_needed iv' (Some 3) (utc (d * DAY + 4 * HOUR)) ((d + 1) * DAY + 2 * HOUR) = Inr None \<and>
       reset_needed iv' (Some 3) (utc (d * DAY + 4 * HOUR)) ((d + 1) * DAY + 3 * HOUR + 60000000)
         = Inr (Some (ResetHour 3))"
    using scenario_hour3 by blast
  show ?thesis
    by (intro conjI) (rule a, rule b, rule c, rule d, rule e, rule f, rule g)
qed

theorem reset_interval_before_hour_witness:
  "hour_valid (reset_hour_utc pool_hour3) \<and>
   interval_in_range (reset_interval_days pool_hour3) (assume_utc (utc (4 * HOUR))) \<and>
   hour_in_range (reset_hour_utc pool_hour3) (assume_utc (utc (4 * HOUR))) \<and>
   check_and_reset_internal pool_hour3 (DAY + 2 * HOUR) = (Inr (), pool_hour3) \<and>
   fst (check_and_reset_internal pool_hour3 (DAY + 3 * HOUR + 60000000)) = Inr () \<and>
   data_keys (snd (check_and_reset_internal pool_hour3 (DAY + 3 * HOUR + 60000000))) = [(''k'', 0)] \<and>
   data_last_reset_time (snd (check_and_reset_internal pool_hour3 (DAY + 3 * HOUR + 60000000)))
     = Iso (utc (DAY + 3 * HOUR + 60000000)) \<and>
   hour_valid (reset_hour_utc pool_far) \<and>
   \<not> interval_in_range (reset_interval_days pool_far) (assume_utc (utc (4 * HOUR))) \<and>
   check_and_reset_internal pool_far (DAY + 2 * HOUR) = (Inl OverflowError, pool_far)"
proof -
  let ?lrt = "assume_utc (utc (4 * HOUR))"
  let ?iv = "reset_interval_days pool_hour3" and ?hr = "reset_hour_utc pool_hour3"
  have fl: "data_last_reset_time pool_far = Iso (utc (4 * HOUR))"
    and fv: "hour_valid (reset_hour_utc pool_far)"
    by (simp_all add: pool_far_def pool_hour3_def hour_valid_def)
  have fo: "\<not> interval_in_range (reset_interval_days pool_far) ?lrt"
    by (simp add: pool_far_def interval_in_range_def days_in_range_def in_range_def
        MAX_WALL_def MIN_WALL_def assume_utc_def utc_def DAY_def HOUR_def)
  have "\<not> interval_in_range (reset_interval_days pool_far) ?lrt \<longrightarrow>
       check_and_reset_internal pool_far (DAY + 2 * HOUR) = (Inl OverflowError, pool_far)"
    using reset_interval_before_hour [OF fl fv refl refl refl refl, of "DAY + 2 * HOUR"]
    by (elim conjE)
  then have fc: "check_and_reset_internal pool_far (DAY + 2 * HOUR) = (Inl OverflowError, pool_far)"
    using fo by simp
  have l: "data_last_reset_time pool_hour3 = Iso (utc (4 * HOUR))"
    by (simp add: pool_hour3_def)
  have v: "hour_valid ?hr"
    by (simp add: pool_hour3_def hour_valid_def)
  have ir: "interval_in_range ?iv ?lrt"
    by (simp add: interval_in_range_def pool_hour3_def)
  have i: "\<not> interval_elapsed ?iv ?lrt t" for t
    by (simp add: interval_elapsed_def pool_hour3_def)
  have hr: "hour_in_range ?hr ?lrt"
    by (simp add: hour_in_range_def pool_hour3_def assume_utc_def utc_def in_range_def
        MIN_WALL_def MAX_WALL_def DAY_def HOUR_def)
  have n: "next_hour_instant 3 ?lrt = DAY + 3 * HOUR"
    by (simp add: next_hour_instant_def assume_utc_def utc_def instant_def DAY_def HOUR_def)
  have h2: "\<not> hour_reached ?hr ?lrt (DAY + 2 * HOUR)"
    by (simp add: hour_reached_def pool_hour3_def n) (simp add: HOUR_def)
  have h3: "hour_reached ?hr ?lrt (DAY + 3 * HOUR + 60000000)"
    by (simp add: hour_reached_def pool_hour3_def n)
  note t2 = reset_interval_before_hour [OF l v refl refl refl refl, of "DAY + 2 * HOUR"]
  note t3 = reset_interval_before_hour [OF l v refl refl refl refl, of "DAY + 3 * HOUR + 60000000"]
  have "interval_in_range ?iv ?lrt \<and> \<not> interval_elapsed ?iv ?lrt (DAY + 2 * HOUR) \<and>
     hour_in_range ?hr ?lrt \<and> \<not> hour_reached ?hr ?lrt (DAY + 2 * HOUR) \<longrightarrow>
       reset_needed ?iv ?hr ?lrt (DAY + 2 * HOUR) = Inr None \<and>
       check_and_reset_internal pool_hour3 (DAY + 2 * HOUR) = (Inr (), pool_hour3)"
    using t2 by (elim conjE)
  then have a: "check_and_reset_internal pool_hour3 (DAY + 2 * HOUR) = (Inr (), pool_hour3)"
    using ir i hr h2 by simp
  have "interval_in_range ?iv ?lrt \<and>
     (interval_elapsed ?iv ?lrt (DAY + 3 * HOUR + 60000000) \<or>
      hour_in_range ?hr ?lrt \<and> hour_reached ?hr ?lrt (DAY + 3 * HOUR + 60000000)) \<longrightarrow>
       fst (check_and_reset_internal pool_hour3 (DAY + 3 * HOUR + 60000000)) = Inr () \<and>
       data_keys (snd (check_and_reset_internal pool_hour3 (DAY + 3 * HOUR + 60000000)))
         = zeroed (data_keys pool_hour3) \<and>
       data_last_reset_time (snd (check_and_reset_internal pool_hour3 (DAY + 3 * HOUR + 60000000)))
         = Iso (utc (DAY + 3 * HOUR + 60000000)) \<and>
       trace (snd (check_and_reset_internal pool_hour3 (DAY + 3 * HOUR + 60000000)))
         = trace pool_hour3 @ [Log INFO, Log INFO, SaveCall]
             @ (if writable pool_hour3 then [] else [Log ERROR])"
    using t3 by (elim conjE)
  then have b: "fst (check_and_reset_internal pool_hour3 (DAY + 3 * HOUR + 60000000)) = Inr ()"
    "data_keys (snd (check_and_reset_internal pool_hour3 (DAY + 3 * HOUR + 60000000)))
         = zeroed (data_keys pool_hour3)"
    "data_last_reset_time (snd (check_and_reset_internal pool_hour3 (DAY + 3 * HOUR + 60000000)))
         = Iso (utc (DAY + 3 * HOUR + 60000000))"
    using ir hr h3 by simp_all
  have z: "zeroed (data_keys pool_hour3) = [(''k'', 0)]"
    by (simp add: zeroed_def pool_hour3_def)
  show ?thesis
    by (intro conjI)
       (rule v, rule ir, rule hr, rule a, rule b(1), simp add: b(2) z, rule b(3), rule fv,
        rule fo, rule fc)
qed

section \<open>Recording usage\<close>

lemma has_key_map_of: "has_key s k \<longleftrightarrow> map_of (data_keys s) k \<noteq> None"
  by (simp add: has_key_def map_of_eq_None_iff)

lemma has_key_check: "has_key (snd (check_and_reset_internal s now)) k = has_key s k"
  by (simp add: has_key_def check_frame del: set_map)

lemma map_of_increment_same:
  "map_of ks k = Some u \<Longrightarrow> map_of (increment_usage k ks) k = Some (u + 1)"
  by (induction ks) (auto split: if_splits)

lemma map_of_increment_other:
  "k' \<noteq> k \<Longrightarrow> map_of (increment_usage k ks) k' = map_of ks k'"
  by (induction ks) auto

lemma fst_increment: "map fst (increment_usage k ks) = map fst ks"
  by (induction ks) auto

lemma timestamps_get_append_same:
  "timestamps_get (timestamps_append k t kts) k = timestamps_get kts k @ [t]"
  by (induction kts) (auto simp: timestamps_get_def)

lemma timestamps_get_append_other:
  "k' \<noteq> k \<Longrightarrow> timestamps_get (timestamps_append k t kts) k' = timestamps_get kts k'"
  by (induction kts) (auto simp: timestamps_get_def)

lemma save_parsed:
  assumes "is_iso (data_last_reset_time s)"
  shows "save_data_internal s now =
     (if writable s
      then s\<lparr>data_config := get_current_config s, trace := trace s @ [SaveCall],
             json_file := Some (dump (s\<lparr>data_config := get_current_config s\<rparr>))\<rparr>
      else s\<lparr>data_config := get_current_config s, trace := trace s @ [SaveCall, Log ERROR]\<rparr>)"
  using assms save_iso by (cases "data_last_reset_time s") simp_all

lemma save_parsed_trace:
  "is_iso (data_last_reset_time s) \<Longrightarrow>
   trace (save_data_internal s now) = trace s @ save_trace s"
  by (simp add: save_parsed save_trace_def)

lemma save_parsed_lrt:
  "is_iso (data_last_reset_time s) \<Longrightarrow>
   data_last_reset_time (save_data_internal s now) = data_last_reset_time s"
  by (simp add: save_parsed)

lemma save_parsed_file:
  "is_iso (data_last_reset_time s) \<Longrightarrow> writable s \<Longrightarrow>
   json_file (save_data_internal s now) = Some (dump (save_data_internal s now))"
  by (simp add: save_parsed dump_def)

lemma record_usage_invalid:
  "invalid_key a \<Longrightarrow> record_usage s now mnow a = (Inr (), s\<lparr>trace := trace s @ [Log WARNING]\<rparr>)"
  by (cases a) (simp_all add: invalid_key_def record_usage_def logging_def)

lemma record_usage_unknown:
  assumes "check_and_reset_internal s now = (Inr (), s1)" and "k \<noteq> []" and "\<not> has_key s k"
  shows "record_usage s now mnow (Str k) = (Inl (ApiKeyManagerError (msg_unknown k)), s1)"
proof -
  have "has_key s1 k = has_key s k"
    using has_key_check [of s now k] assms(1) by simp
  then show ?thesis
    using assms by (simp add: record_usage_def)
qed

lemma record_usage_known:
  assumes "check_and_reset_internal s now = (Inr (), s1)" and "k \<noteq> []" and "has_key s k"
  shows "record_usage s now mnow (Str k) =
     (Inr (), save_data_internal
        (if requests_per_minute s \<noteq> None
         then s1\<lparr>data_keys := increment_usage k (data_keys s1),
                 key_timestamps := timestamps_append k mnow (key_timestamps s)\<rparr>
         else s1\<lparr>data_keys := increment_usage k (data_keys s1)\<rparr>) now)"
proof -
  have h: "has_key s1 k = has_key s k"
    using has_key_check [of s now k] assms(1) by simp
  have r: "requests_per_minute s1 = requests_per_minute s"
    using check_frame(2) [of s now] assms(1) by simp
  have t: "key_timestamps s1 = key_timestamps s"
    using check_frame(5) [of s now] assms(1) by simp
  show ?thesis
    using assms h by (simp add: record_usage_def Let_def r t)
qed

text \<open>
  Claim C3. For an empty string or an argument that is not a string, \<open>record_usage\<close>
  returns without raising and changes nothing in the manager or the file: only the
  warning is logged. When the reset check returns, giving \<open>s1\<close>, the call raises exactly
  when the key is a non-empty string that the pool lacks, and then it is the unknown-key
  error. For a key of the pool it raises nothing, the count of that key is its count in
  \<open>s1\<close> plus one (its count before the call plus one when the check did not reset), every
  other count and the order of the keys stay, the monotonic time is appended to the
  window of the key when a rate limit is set and the windows stay as they are otherwise,
  and one save follows.
\<close>

theorem record_usage_spec:
  "(invalid_key a \<longrightarrow>
      record_usage s now mnow a = (Inr (), s\<lparr>trace := trace s @ [Log WARNING]\<rparr>)) \<and>
   (\<forall>s1 s' r. check_and_reset_internal s now = (Inr (), s1) \<and>
        record_usage s now mnow a = (r, s') \<longrightarrow>
      ((\<exists>e. r = Inl e) \<longleftrightarrow> (\<exists>k. a = Str k \<and> k \<noteq> [] \<and> \<not> has_key s k)) \<and>
      (\<forall>k. a = Str k \<and> k \<noteq> [] \<and> \<not> has_key s k \<longrightarrow>
         r = Inl (ApiKeyManagerError (msg_unknown k)) \<and> s' = s1) \<and>
      (\<forall>k u. a = Str k \<and> k \<noteq> [] \<and> usage_today s1 k = Some u \<longrightarrow>
         r = Inr () \<and>
         usage_today s' k = Some (u + 1) \<and>
         (\<forall>k'. k' \<noteq> k \<longrightarrow> usage_today s' k' = usage_today s1 k') \<and>
         map fst (data_keys s') = map fst (data_keys s) \<and>
         (requests_per_minute s \<noteq> None \<longrightarrow>
            timestamps_get (key_timestamps s') k = timestamps_get (key_timestamps s) k @ [mnow] \<and>
            (\<forall>k'. k' \<noteq> k \<longrightarrow>
               timestamps_get (key_timestamps s') k' = timestamps_get (key_timestamps s) k')) \<and>
         (requests_per_minute s = None \<longrightarrow> key_timestamps s' = key_timestamps s) \<and>
         trace s' = trace s1 @ save_trace s \<and>
         (writable s \<longrightarrow> json_file s' = Some (dump s'))))"
proof (intro conjI allI impI)
  assume "invalid_key a"
  then show "record_usage s now mnow a = (Inr (), s\<lparr>trace := trace s @ [Log WARNING]\<rparr>)"
    by (rule record_usage_invalid)
next
  fix s1 s' r
  assume h: "check_and_reset_internal s now = (Inr (), s1) \<and> record_usage s now mnow a = (r, s')"
  then have c: "check_and_reset_internal s now = (Inr (), s1)"
    and ru: "record_usage s now mnow a = (r, s')" by simp_all
  show "(\<exists>e. r = Inl e) \<longleftrightarrow> (\<exists>k. a = Str k \<and> k \<noteq> [] \<and> \<not> has_key s k)"
  proof (cases "invalid_key a")
    case True
    then have "r = Inr ()" using record_usage_invalid [OF True, of s now mnow] ru by simp
    then show ?thesis using True by (auto simp: invalid_key_def)
  next
    case False
    then obtain k where k: "a = Str k" "k \<noteq> []"
      by (cases a) (auto simp: invalid_key_def)
    show ?thesis
    proof (cases "has_key s k")
      case True
      then show ?thesis using record_usage_known [OF c k(2) True, of mnow] ru k by auto
    next
      case False
      then show ?thesis using record_usage_unknown [OF c k(2) False, of mnow] ru k by auto
    qed
  qed
next
  fix s1 s' r k
  assume h: "check_and_reset_internal s now = (Inr (), s1) \<and> record_usage s now mnow a = (r, s')"
    and k: "a = Str k \<and> k \<noteq> [] \<and> \<not> has_key s k"
  then have "record_usage s now mnow (Str k) = (Inl (ApiKeyManagerError (msg_unknown k)), s1)"
    using record_usage_unknown by blast
  then show "r = Inl (ApiKeyManagerError (msg_unknown k))" and "s' = s1"
    using h k by simp_all
next
  fix s1 s' r k u
  assume h: "check_and_reset_internal s now = (Inr (), s1) \<and> record_usage s now mnow a = (r, s')"
    and k: "a = Str k \<and> k \<noteq> [] \<and> usage_today s1 k = Some u"
  have c: "check_and_reset_internal s now = (Inr (), s1)" using h by simp
  have s1: "s1 = snd (check_and_reset_internal s now)" using c by simp
  have hk: "has_key s k"
    using k has_key_check [of s now k] c by (simp add: has_key_map_of usage_today_def)
  let ?m = "if requests_per_minute s \<noteq> None
         then s1\<lparr>data_keys := increment_usage k (data_keys s1),
                 key_timestamps := timestamps_append k mnow (key_timestamps s)\<rparr>
         else s1\<lparr>data_keys := increment_usage k (data_keys s1)\<rparr>"
  have t: "key_timestamps s1 = key_timestamps s"
    using check_frame(5) [of s now] c by simp
  have iso: "is_iso (data_last_reset_time ?m)"
    using check_ok_is_iso [of s now] c by simp
  have w: "writable ?m = writable s"
    using check_frame(7) [of s now] c by simp
  have e: "r = Inr ()" "s' = save_data_internal ?m now"
    using record_usage_known [OF c _ hk, of mnow] h k by simp_all
  show "r = Inr ()" by (rule e)
  show "usage_today s' k = Some (u + 1)"
    using k by (simp add: e usage_today_def save_frame map_of_increment_same)
  show "usage_today s' k' = usage_today s1 k'" if "k' \<noteq> k" for k'
    using that by (simp add: e usage_today_def save_frame map_of_increment_other)
  show "map fst (data_keys s') = map fst (data_keys s)"
    by (simp add: e save_frame fst_increment s1 check_frame)
  show "timestamps_get (key_timestamps s') k = timestamps_get (key_timestamps s) k @ [mnow]"
    if "requests_per_minute s \<noteq> None"
    using that by (simp add: e save_frame timestamps_get_append_same)
  show "timestamps_get (key_timestamps s') k' = timestamps_get (key_timestamps s) k'"
    if "requests_per_minute s \<noteq> None" "k' \<noteq> k" for k'
    using that by (simp add: e save_frame timestamps_get_append_other)
  show "key_timestamps s' = key_timestamps s" if "requests_per_minute s = None"
    using that by (simp add: e save_frame t)
  show "trace s' = trace s1 @ save_trace s"
    unfolding e using save_parsed_trace [OF iso, of now] w by (simp add: save_trace_def)
  show "json_file s' = Some (dump s')" if "writable s"
    unfolding e using save_parsed_file [OF iso, of now] w that by simp
qed

theorem record_usage_spec_witness:
  "invalid_key NonStr \<and>
   record_usage pool_abc 0 120 NonStr = (Inr (), pool_abc\<lparr>trace := [Log WARNING]\<rparr>) \<and>
   check_and_reset_internal pool_abc 0 = (Inr (), pool_abc) \<and>
   \<not> has_key pool_abc ''z'' \<and>
   fst (record_usage pool_abc 0 120 (Str ''z'')) = Inl (ApiKeyManagerError (msg_unknown ''z'')) \<and>
   usage_today pool_abc ''b'' = Some 0 \<and>
   fst (record_usage pool_abc 0 120 (Str ''b'')) = Inr () \<and>
   usage_today (snd (record_usage pool_abc 0 120 (Str ''b''))) ''b'' = Some 1 \<and>
   timestamps_get (key_timestamps (snd (record_usage pool_abc 0 120 (Str ''b'')))) ''b''
     = [100, 120]"
proof -
  have h: "check_and_reset_internal pool_abc 0 = (Inr (), pool_abc)"
    by (simp add: check_and_reset_internal_def pool_abc_def reset_needed_def)
  have i: "invalid_key NonStr"
    by (simp add: invalid_key_def)
  have a: "record_usage pool_abc 0 120 NonStr =
             (Inr (), pool_abc\<lparr>trace := trace pool_abc @ [Log WARNING]\<rparr>)"
    using record_usage_spec [of NonStr pool_abc 0 120] i by blast
  have t: "trace pool_abc = []"
    by (simp add: pool_abc_def)
  have z: "\<not> has_key pool_abc ''z''"
    by (simp add: has_key_def pool_abc_def)
  have b: "fst (record_usage pool_abc 0 120 (Str ''z'')) = Inl (ApiKeyManagerError (msg_unknown ''z''))"
    using record_usage_spec [of "Str ''z''" pool_abc 0 120, THEN conjunct2, rule_format,
        of pool_abc "fst (record_usage pool_abc 0 120 (Str ''z''))"
           "snd (record_usage pool_abc 0 120 (Str ''z''))"] h z
    by simp
  have u: "usage_today pool_abc ''b'' = Some 0"
    by (simp add: usage_today_def pool_abc_def)
  have r: "requests_per_minute pool_abc \<noteq> None"
    by (simp add: pool_abc_def)
  have g: "timestamps_get (key_timestamps pool_abc) ''b'' = [100]"
    by (simp add: timestamps_get_def pool_abc_def)
  have c: "fst (record_usage pool_abc 0 120 (Str ''b'')) = Inr () \<and>
     usage_today (snd (record_usage pool_abc 0 120 (Str ''b''))) ''b'' = Some (0 + 1) \<and>
     timestamps_get (key_timestamps (snd (record_usage pool_abc 0 120 (Str ''b'')))) ''b''
       = timestamps_get (key_timestamps pool_abc) ''b'' @ [120]"
    using record_usage_spec [of "Str ''b''" pool_abc 0 120, THEN conjunct2, rule_format,
        of pool_abc "fst (record_usage pool_abc 0 120 (Str ''b''))"
           "snd (record_usage pool_abc 0 120 (Str ''b''))"] h u r
    by simp
  show ?thesis
    using i a t h z b u c g by simp
qed

section \<open>Construction and the resolved configuration\<close>

lemma cleanup_frame:
  "daily_limit (cleanup_timestamps_internal s mnow) = daily_limit s"
  "requests_per_minute (cleanup_timestamps_internal s mnow) = requests_per_minute s"
  "reset_hour_utc (cleanup_timestamps_internal s mnow) = reset_hour_utc s"
  "reset_interval_days (cleanup_timestamps_internal s mnow) = reset_interval_days s"
  "data_keys (cleanup_timestamps_internal s mnow) = data_keys s"
  "data_config (cleanup_timestamps_internal s mnow) = data_config s"
  "data_last_reset_time (cleanup_timestamps_internal s mnow) = data_last_reset_time s"
  "api_keys (cleanup_timestamps_internal s mnow) = api_keys s"
  "json_file (cleanup_timestamps_internal s mnow) = json_file s"
  "writable (cleanup_timestamps_internal s mnow) = writable s"
  "trace (cleanup_timestamps_internal s mnow) = trace s"
  by (simp_all add: cleanup_timestamps_internal_def)

lemma after_load_snd:
  "fst (after_load s now mnow) = Inr () \<Longrightarrow>
   snd (after_load s now mnow) = cleanup_timestamps_internal (snd (check_and_reset_internal s now)) mnow"
  by (simp add: after_load_def split: prod.splits sum.splits)

lemma after_load_frame:
  "daily_limit (snd (after_load s now mnow)) = daily_limit s"
  "requests_per_minute (snd (after_load s now mnow)) = requests_per_minute s"
  "reset_hour_utc (snd (after_load s now mnow)) = reset_hour_utc s"
  "reset_interval_days (snd (after_load s now mnow)) = reset_interval_days s"
  using check_frame(1-4) [of s now]
  by (auto simp: after_load_def cleanup_frame split: prod.splits sum.splits)

lemma merge_param_resolve: "fst (merge_param a b) = resolve a b"
  by (simp add: merge_param_def resolve_def split: option.splits)

lemma merge_config_frame:
  "daily_limit (merge_config s a c) = resolve (cfg_daily_limit a) (cfg_daily_limit c)"
  "requests_per_minute (merge_config s a c)
     = resolve (cfg_requests_per_minute a) (cfg_requests_per_minute c)"
  "reset_hour_utc (merge_config s a c) = resolve (cfg_reset_hour_utc a) (cfg_reset_hour_utc c)"
  "reset_interval_days (merge_config s a c)
     = resolve (cfg_reset_interval_days a) (cfg_reset_interval_days c)"
  by (simp_all add: merge_config_def Let_def merge_param_resolve)

lemma load_frame:
  assumes "fst (load_or_initialize_data s a now mnow) = Inr ()"
  shows "daily_limit (snd (load_or_initialize_data s a now mnow))
           = resolve (cfg_daily_limit a) (cfg_daily_limit (persisted_config (json_file s)))"
    and "requests_per_minute (snd (load_or_initialize_data s a now mnow))
           = resolve (cfg_requests_per_minute a)
               (cfg_requests_per_minute (persisted_config (json_file s)))"
    and "reset_hour_utc (snd (load_or_initialize_data s a now mnow))
           = resolve (cfg_reset_hour_utc a) (cfg_reset_hour_utc (persisted_config (json_file s)))"
    and "reset_interval_days (snd (load_or_initialize_data s a now mnow))
           = resolve (cfg_reset_interval_days a)
               (cfg_reset_interval_days (persisted_config (json_file s)))"
  using assms
  by (auto simp: load_or_initialize_data_def Let_def after_load_frame merge_config_frame
      persisted_config_def logging_def save_frame empty_config_def resolve_def
      split: option.splits file_content.splits)

text \<open>
  Claim C4. When the constructor returns a manager, each of its four limits is the
  caller's argument when that is given, whatever the file holds, otherwise the value
  the file persists when there is one, otherwise absent. So a given
  \<open>requests_per_minute\<close> is the manager's, and without a \<open>daily_limit\<close> argument the
  persisted daily limit is kept.
\<close>

theorem init_resolves_config:
  assumes "init fc w dl rpm rh ri now mnow = (Inr (), s)"
  shows "daily_limit s = resolve dl (cfg_daily_limit (persisted_config fc)) \<and>
    requests_per_minute s = resolve rpm (cfg_requests_per_minute (persisted_config fc)) \<and>
    reset_hour_utc s = resolve rh (cfg_reset_hour_utc (persisted_config fc)) \<and>
    reset_interval_days s = resolve ri (cfg_reset_interval_days (persisted_config fc)) \<and>
    (\<forall>v. rpm = Some v \<longrightarrow> requests_per_minute s = Some v) \<and>
    (dl = None \<longrightarrow> daily_limit s = cfg_daily_limit (persisted_config fc))"
proof -
  let ?a = "\<lparr>cfg_daily_limit = dl, cfg_requests_per_minute = rpm,
             cfg_reset_hour_utc = rh, cfg_reset_interval_days = ri\<rparr>"
  let ?s0 = "\<lparr>daily_limit = dl, requests_per_minute = rpm, reset_hour_utc = rh,
               reset_interval_days = ri, data_keys = [], data_config = ?a,
               data_last_reset_time = Absent, key_timestamps = [], api_keys = [],
               json_file = fc, writable = w, trace = []\<rparr>"
  let ?l = "load_or_initialize_data ?s0 ?a now mnow"
  have ok: "fst ?l = Inr ()" and s: "s = (snd ?l)\<lparr>api_keys := map fst (data_keys (snd ?l))\<rparr>"
    using assms by (auto simp: init_def Let_def split: prod.splits sum.splits if_splits)
  have 1: "daily_limit s = resolve dl (cfg_daily_limit (persisted_config fc))"
    using load_frame(1) [OF ok] by (simp add: s)
  have 2: "requests_per_minute s = resolve rpm (cfg_requests_per_minute (persisted_config fc))"
    using load_frame(2) [OF ok] by (simp add: s)
  have 3: "reset_hour_utc s = resolve rh (cfg_reset_hour_utc (persisted_config fc))"
    using load_frame(3) [OF ok] by (simp add: s)
  have 4: "reset_interval_days s = resolve ri (cfg_reset_interval_days (persisted_config fc))"
    using load_frame(4) [OF ok] by (simp add: s)
  show ?thesis
    using 1 2 3 4 by (simp add: resolve_def)
qed

lemma init_demo_override:
  "init (Some demo_file) True None (Some 20) None None HOUR 0 =
     (Inr (),
      \<lparr>daily_limit = Some 50, requests_per_minute = Some 20, reset_hour_utc = Some 3,
       reset_interval_days = None,
       data_keys = [(''load_test_key_1'', 1), (''load_test_key_2'', 0)],
       data_config = \<lparr>cfg_daily_limit = Some 50, cfg_requests_per_minute = Some 20,
                      cfg_reset_hour_utc = Some 3, cfg_reset_interval_days = None\<rparr>,
       data_last_reset_time = Iso (utc 0), key_timestamps = [],
       api_keys = [''load_test_key_1'', ''load_test_key_2''],
       json_file = Some demo_file, writable = True,
       trace = [Log INFO, Log WARNING, Log INFO, Log INFO]\<rparr>)"
  by (simp add: init_def demo_file_def load_or_initialize_data_def after_load_def
      check_and_reset_internal_def reset_needed_def cleanup_timestamps_internal_def
      merge_config_def merge_param_def logging_def get_current_config_def Let_def
      assume_utc_def utc_def instant_def plus_days_def combine_date_hour_def DAY_def HOUR_def)

theorem init_resolves_config_witness:
  "fst (init (Some demo_file) True None (Some 20) None None HOUR 0) = Inr () \<and>
   requests_per_minute (snd (init (Some demo_file) True None (Some 20) None None HOUR 0)) = Some 20 \<and>
   daily_limit (snd (init (Some demo_file) True None (Some 20) None None HOUR 0)) = Some 50 \<and>
   cfg_requests_per_minute (persisted_config (Some demo_file)) = Some 5"
proof -
  have p: "cfg_daily_limit (persisted_config (Some demo_file)) = Some 50"
    "cfg_requests_per_minute (persisted_config (Some demo_file)) = Some 5"
    by (simp_all add: persisted_config_def demo_file_def)
  have e: "fst (init (Some demo_file) True None (Some 20) None None HOUR 0) = Inr ()"
    by (simp add: init_demo_override)
  then have "init (Some demo_file) True None (Some 20) None None HOUR 0 =
      (Inr (), snd (init (Some demo_file) True None (Some 20) None None HOUR 0))"
    by (metis prod.collapse)
  from init_resolves_config [OF this] show ?thesis
    using e p by (simp add: resolve_def)
qed

section \<open>Eviction from the rate window\<close>

lemma cleanup_entries_evict: "cleanup_entries c kts = evict_stale c kts"
  by (induction kts) (auto simp: evict_stale_def Let_def not_less)

lemma add_key_timestamps: "key_timestamps (snd (add_key s now a)) = key_timestamps s"
  using check_frame(5) [of s now]
  by (auto simp: add_key_def Let_def save_frame logging_def split: key_arg.splits prod.splits sum.splits)

lemma get_usage_stats_timestamps: "key_timestamps (snd (get_usage_stats s now)) = key_timestamps s"
  using check_frame(5) [of s now]
  by (auto simp: get_usage_stats_def split: prod.splits sum.splits)

lemma remove_key_timestamps:
  "key_timestamps (snd (remove_key s now k)) =
     (if fst (remove_key s now k) = Inr ()
      then filter (\<lambda>(k', tss). k' \<noteq> k) (key_timestamps s)
      else key_timestamps s)"
  using check_frame(5) [of s now]
  by (auto simp: remove_key_def Let_def save_frame logging_def split: prod.splits sum.splits)

lemma record_usage_timestamps:
  "key_timestamps (snd (record_usage s now mnow a)) =
     (case a of
        Str k \<Rightarrow>
          if fst (record_usage s now mnow a) = Inr () \<and> k \<noteq> [] \<and> requests_per_minute s \<noteq> None
          then timestamps_append k mnow (key_timestamps s)
          else key_timestamps s
      | NonStr \<Rightarrow> key_timestamps s)"
  using check_frame(5) [of s now] check_frame(2) [of s now]
  by (auto simp: record_usage_def Let_def save_frame logging_def
      split: key_arg.splits prod.splits sum.splits)

lemma get_key_snd:
  assumes "check_and_reset_internal s now = (Inr (), s1)"
  shows "snd (get_key s now mnow) = cleanup_timestamps_internal s1 mnow"
  using assms by (simp add: get_key_def Let_def split: option.splits)

lemma get_key_timestamps:
  assumes "check_and_reset_internal s now = (Inr (), s1)"
  shows "key_timestamps (snd (get_key s now mnow))
           = key_timestamps (cleanup_timestamps_internal s mnow)"
proof -
  have "key_timestamps s1 = key_timestamps s" "requests_per_minute s1 = requests_per_minute s"
    using check_frame(5) [of s now] check_frame(2) [of s now] assms by simp_all
  then show ?thesis
    unfolding get_key_snd [OF assms] by (simp add: cleanup_timestamps_internal_def)
qed

text \<open>
  Claim C5 fails as stated: \<open>add_key\<close> runs the reset check and never calls the cleanup.
  In the pool below the rate limit is 1 and key \<open>b\<close> has a timestamp at second 100; a
  cleanup at second 200 would empty the tracker, and \<open>add_key\<close>, which does not read the
  monotonic clock at all, succeeds and leaves the entry where it is.
\<close>

theorem add_key_keeps_stale_timestamps:
  "requests_per_minute pool_abc = Some 1 \<and>
   key_timestamps pool_abc = [(''b'', [100])] \<and>
   key_timestamps (cleanup_timestamps_internal pool_abc 200) = [] \<and>
   fst (add_key pool_abc 0 (Str ''d'')) = Inr () \<and>
   key_timestamps (snd (add_key pool_abc 0 (Str ''d''))) = [(''b'', [100])]"
proof -
  have h: "check_and_reset_internal pool_abc 0 = (Inr (), pool_abc)"
    by (simp add: check_and_reset_internal_def pool_abc_def reset_needed_def)
  have k: "\<not> has_key pool_abc ''d''"
    by (simp add: has_key_def pool_abc_def)
  have a: "fst (add_key pool_abc 0 (Str ''d'')) = Inr ()"
    by (simp add: add_key_def h k Let_def)
  have c: "key_timestamps (cleanup_timestamps_internal pool_abc 200) = []"
    by (simp add: cleanup_timestamps_internal_def pool_abc_def)
  show ?thesis
    using a c by (simp add: add_key_timestamps) (simp add: pool_abc_def)
qed

text \<open>
  Claim C5, amended. Of the operations that run the reset check only \<open>get_key\<close> evicts:
  when the rate limit is set and not 0 and the check returns, the tracker after
  \<open>get_key\<close> is the old one with, for every tracked key, the timestamps older than 60
  seconds before now dropped and the keys with an empty window dropped. \<open>add_key\<close> and
  \<open>get_usage_stats\<close> leave the tracker as it is, \<open>remove_key\<close> drops the entry of the key
  it removes and nothing else, and \<open>record_usage\<close> appends one timestamp to the window of
  the key it records, when a rate limit is set, and changes nothing else. The cleanup
  changes nothing when the rate limit is absent.
\<close>

theorem eviction_only_in_get_key:
  "(\<forall>r s1. requests_per_minute s = Some r \<and> r \<noteq> 0 \<and>
        check_and_reset_internal s now = (Inr (), s1) \<longrightarrow>
      key_timestamps (snd (get_key s now mnow)) = evict_stale (mnow - 60) (key_timestamps s)) \<and>
   (requests_per_minute s = None \<longrightarrow> cleanup_timestamps_internal s mnow = s) \<and>
   key_timestamps (snd (add_key s now a)) = key_timestamps s \<and>
   key_timestamps (snd (get_usage_stats s now)) = key_timestamps s \<and>
   key_timestamps (snd (remove_key s now k)) =
     (if fst (remove_key s now k) = Inr ()
      then filter (\<lambda>(k', tss). k' \<noteq> k) (key_timestamps s)
      else key_timestamps s) \<and>
   key_timestamps (snd (record_usage s now mnow a)) =
     (case a of
        Str k \<Rightarrow>
          if fst (record_usage s now mnow a) = Inr () \<and> k \<noteq> [] \<and> requests_per_minute s \<noteq> None
          then timestamps_append k mnow (key_timestamps s)
          else key_timestamps s
      | NonStr \<Rightarrow> key_timestamps s)"
proof -
  have 1: "\<forall>r s1. requests_per_minute s = Some r \<and> r \<noteq> 0 \<and>
        check_and_reset_internal s now = (Inr (), s1) \<longrightarrow>
      key_timestamps (snd (get_key s now mnow)) = evict_stale (mnow - 60) (key_timestamps s)"
    by (auto simp: get_key_timestamps cleanup_timestamps_internal_def cleanup_entries_evict)
  have 2: "requests_per_minute s = None \<longrightarrow> cleanup_timestamps_internal s mnow = s"
    by (simp add: cleanup_timestamps_internal_def)
  show ?thesis
    using 1 2 add_key_timestamps [of s now a] get_usage_stats_timestamps [of s now]
      remove_key_timestamps [of s now k] record_usage_timestamps [of s now mnow a]
    by blast
qed

theorem eviction_only_in_get_key_witness:
  "requests_per_minute pool_abc = Some 1 \<and>
   check_and_reset_internal pool_abc 0 = (Inr (), pool_abc) \<and>
   key_timestamps (snd (get_key pool_abc 0 200)) = [] \<and>
   key_timestamps (snd (get_key pool_abc 0 120)) = [(''b'', [100])]"
proof -
  have r: "requests_per_minute pool_abc = Some 1"
    by (simp add: pool_abc_def)
  have h: "check_and_reset_internal pool_abc 0 = (Inr (), pool_abc)"
    by (simp add: check_and_reset_internal_def pool_abc_def reset_needed_def)
  have e: "evict_stale (200 - 60) (key_timestamps pool_abc) = []"
    "evict_stale (120 - 60) (key_timestamps pool_abc) = [(''b'', [100])]"
    by (simp_all add: evict_stale_def pool_abc_def)
  have "key_timestamps (snd (get_key pool_abc 0 200)) = evict_stale (200 - 60) (key_timestamps pool_abc)"
    using eviction_only_in_get_key [of pool_abc 0 200] r h by simp
  moreover have "key_timestamps (snd (get_key pool_abc 0 120)) = evict_stale (120 - 60) (key_timestamps pool_abc)"
    using eviction_only_in_get_key [of pool_abc 0 120] r h by simp
  ultimately show ?thesis
    using r h e by simp
qed

section \<open>Reconciling twice\<close>

lemma day_floor: "now < (now div DAY) * DAY + DAY"
proof -
  have "now mod DAY < DAY" by (simp add: DAY_def)
  moreover have "now = (now div DAY) * DAY + now mod DAY" by simp
  ultimately show ?thesis by linarith
qed

lemma plus_days_cases:
  "plus_days dt n = Inl OverflowError \<or> plus_days dt n = Inr (dt\<lparr>wall := wall dt + n * DAY\<rparr>)"
  by (simp add: plus_days_def)

lemma reset_needed_just_reset:
  assumes "interval_valid iv"
  shows "reset_needed iv hr (assume_utc (utc now)) now = Inr None \<or>
    (\<exists>e. reset_needed iv hr (assume_utc (utc now)) now = Inl e)"
proof (cases "interval_in_range iv (assume_utc (utc now))")
  case False
  then show ?thesis using reset_needed_interval_overflow by blast
next
  case True
  have i: "\<not> interval_elapsed iv (assume_utc (utc now)) now"
    using assms
    by (auto simp: interval_elapsed_def interval_valid_def assume_utc_def utc_def instant_def
        DAY_def split: option.splits)
  show ?thesis
  proof (cases "hour_valid hr")
    case False
    then show ?thesis
      by (auto simp: reset_needed_interval_pending [OF True i] hour_valid_def split: option.splits)
  next
    case v: True
    show ?thesis
    proof (cases "hour_in_range hr (assume_utc (utc now))")
      case False
      then show ?thesis using reset_needed_hour_overflow [OF v True i] by blast
    next
      case r: True
      have "now < next_hour_instant h (assume_utc (utc now))" if "0 \<le> h" for h
      proof -
        have "0 \<le> h * HOUR" using that by (simp add: HOUR_def)
        then show ?thesis
          using day_floor [of now]
          by (auto simp: next_hour_instant_def assume_utc_def utc_def instant_def Let_def)
      qed
      then have "\<not> hour_reached hr (assume_utc (utc now)) now"
        using v by (fastforce simp: hour_reached_def hour_valid_def not_le split: option.splits)
      then show ?thesis
        using reset_needed_hour [OF v True i r] by simp
    qed
  qed
qed

lemma check_unchanged:
  assumes "data_last_reset_time s = Iso dt"
    and "reset_needed (reset_interval_days s) (reset_hour_utc s) (assume_utc dt) now = Inr None \<or>
      (\<exists>e. reset_needed (reset_interval_days s) (reset_hour_utc s) (assume_utc dt) now = Inl e)"
  shows "snd (check_and_reset_internal s now) = s"
  using assms by (auto simp: check_iso)

lemma check_iso_state_cases:
  assumes "data_last_reset_time s = Iso dt"
  shows "snd (check_and_reset_internal s now) = s \<or>
   data_last_reset_time (snd (check_and_reset_internal s now)) = Iso (utc now)"
proof (cases "reset_needed (reset_interval_days s) (reset_hour_utc s) (assume_utc dt) now")
  case (Inl e)
  then show ?thesis using check_unchanged [OF assms, of now] by simp
next
  case (Inr d)
  show ?thesis
  proof (cases d)
    case None
    then show ?thesis using check_unchanged [OF assms, of now] Inr by simp
  next
    case (Some r)
    then show ?thesis using check_reset_fields(3) [OF assms, of now r] Inr by simp
  qed
qed

lemma check_falsy_now:
  assumes "falsy (data_last_reset_time s)"
  shows "data_last_reset_time (snd (check_and_reset_internal s now)) = Iso (utc now)"
proof -
  let ?r = "s\<lparr>data_last_reset_time := Iso (utc now), trace := trace s @ [Log ERROR]\<rparr>"
  have r: "data_last_reset_time ?r = Iso (utc now)"
    by simp
  show ?thesis
    unfolding check_falsy [OF assms] using check_iso_state_cases [OF r, of now] by auto
qed

lemma check_state_cases:
  "snd (check_and_reset_internal s now) = s \<or>
   data_last_reset_time (snd (check_and_reset_internal s now)) = Iso (utc now)"
proof (cases "data_last_reset_time s")
  case (Iso dt)
  then show ?thesis by (rule check_iso_state_cases)
next
  case Malformed
  then show ?thesis by (simp add: check_malformed)
next
  case Absent
  then show ?thesis using check_falsy_now [of s now] by simp
next
  case Empty
  then show ?thesis using check_falsy_now [of s now] by simp
next
  case (NonString b)
  then show ?thesis
    using check_falsy_now [of s now] check_not_string [of s now] by (cases b) simp_all
qed

lemma check_twice_state:
  assumes "interval_valid (reset_interval_days s)"
    and "check_and_reset_internal s now = (r, s1)"
  shows "snd (check_and_reset_internal s1 now) = s1"
proof -
  have f: "reset_hour_utc s1 = reset_hour_utc s" "reset_interval_days s1 = reset_interval_days s"
    using check_frame(3,4) [of s now] assms(2) by simp_all
  from check_state_cases [of s now]
  show ?thesis
  proof
    assume "snd (check_and_reset_internal s now) = s"
    then show ?thesis using assms(2) by simp
  next
    assume "data_last_reset_time (snd (check_and_reset_internal s now)) = Iso (utc now)"
    then have l: "data_last_reset_time s1 = Iso (utc now)"
      using assms(2) by simp
    show ?thesis
      using check_unchanged [OF l, of now] reset_needed_just_reset [OF assms(1)]
      unfolding f by blast
  qed
qed

lemma check_repairs_missing:
  assumes "data_last_reset_time s = Absent \<or> data_last_reset_time s = Empty"
    and "interval_valid (reset_interval_days s)"
  shows "snd (check_and_reset_internal s now) =
     s\<lparr>data_last_reset_time := Iso (utc now), trace := trace s @ [Log ERROR]\<rparr>"
proof -
  let ?r = "s\<lparr>data_last_reset_time := Iso (utc now), trace := trace s @ [Log ERROR]\<rparr>"
  have f: "falsy (data_last_reset_time s)"
    using assms(1) by auto
  have r: "data_last_reset_time ?r = Iso (utc now)"
    by simp
  have "snd (check_and_reset_internal ?r now) = ?r"
    using check_unchanged [OF r, of now] reset_needed_just_reset [OF assms(2), of "reset_hour_utc s" now]
    by simp
  then show ?thesis
    unfolding check_falsy [OF f] .
qed

text \<open>
  Claim C7. With a reset interval that is positive (or unset), whatever the first reset
  check at the instant \<open>now\<close> did, a second check at the same instant leaves the
  manager, the file and the trace exactly as the first one left them: no reset, no
  save, no log line. In particular, when the first check resets (it returns normally,
  the counters are zero and the last reset time is \<open>now\<close> afterwards, after one save),
  the second check resets nothing and saves nothing.
\<close>

theorem reconcile_idempotent:
  assumes "interval_valid (reset_interval_days s)"
    and "check_and_reset_internal s now = (r, s1)"
  shows "snd (check_and_reset_internal s1 now) = s1 \<and>
    (\<forall>dt why. data_last_reset_time s = Iso dt \<and>
        reset_needed (reset_interval_days s) (reset_hour_utc s) (assume_utc dt) now
          = Inr (Some why) \<longrightarrow>
       r = Inr () \<and>
       data_keys s1 = zeroed (data_keys s) \<and>
       data_last_reset_time s1 = Iso (utc now) \<and>
       trace s1 = trace s @ [Log INFO, Log INFO] @ save_trace s \<and>
       trace (snd (check_and_reset_internal s1 now)) = trace s1 \<and>
       json_file (snd (check_and_reset_internal s1 now)) = json_file s1 \<and>
       data_keys (snd (check_and_reset_internal s1 now)) = data_keys s1)"
proof -
  have t: "snd (check_and_reset_internal s1 now) = s1"
    using check_twice_state [OF assms] .
  have "r = Inr () \<and> data_keys s1 = zeroed (data_keys s) \<and>
       data_last_reset_time s1 = Iso (utc now) \<and>
       trace s1 = trace s @ [Log INFO, Log INFO] @ save_trace s"
    if "data_last_reset_time s = Iso dt"
      and "reset_needed (reset_interval_days s) (reset_hour_utc s) (assume_utc dt) now
          = Inr (Some why)" for dt why
    using check_reset_fields [OF that] assms(2)
    by (simp add: save_trace_def)
  then show ?thesis
    using t by auto
qed

theorem reconcile_idempotent_witness:
  "interval_valid (reset_interval_days pool_daily) \<and>
   usage_today pool_daily ''k1'' = Some 7 \<and>
   fst (check_and_reset_internal pool_daily (2 * DAY)) = Inr () \<and>
   data_keys (snd (check_and_reset_internal pool_daily (2 * DAY))) = [(''k1'', 0), (''k2'', 0)] \<and>
   data_last_reset_time (snd (check_and_reset_internal pool_daily (2 * DAY))) = Iso (utc (2 * DAY)) \<and>
   snd (check_and_reset_internal (snd (check_and_reset_internal pool_daily (2 * DAY))) (2 * DAY))
     = snd (check_and_reset_internal pool_daily (2 * DAY))"
proof -
  let ?s1 = "snd (check_and_reset_internal pool_daily (2 * DAY))"
  have v: "interval_valid (reset_interval_days pool_daily)"
    by (simp add: pool_daily_def interval_valid_def)
  have l: "data_last_reset_time pool_daily = Iso (utc 0)"
    by (simp add: pool_daily_def)
  have n: "reset_needed (reset_interval_days pool_daily) (reset_hour_utc pool_daily)
             (assume_utc (utc 0)) (2 * DAY) = Inr (Some (IntervalDays 1))"
    by (simp add: pool_daily_def reset_needed_def assume_utc_def utc_def instant_def
        plus_days_def in_range_def MIN_WALL_def MAX_WALL_def DAY_def)
  have z: "zeroed (data_keys pool_daily) = [(''k1'', 0), (''k2'', 0)]"
    and u: "usage_today pool_daily ''k1'' = Some 7"
    by (simp_all add: zeroed_def usage_today_def pool_daily_def)
  have p: "check_and_reset_internal pool_daily (2 * DAY) =
          (fst (check_and_reset_internal pool_daily (2 * DAY)), ?s1)"
    by simp
  note t = reconcile_idempotent [OF v p]
  have a: "snd (check_and_reset_internal ?s1 (2 * DAY)) = ?s1"
    using t by (rule conjunct1)
  have "\<forall>dt why. data_last_reset_time pool_daily = Iso dt \<and>
        reset_needed (reset_interval_days pool_daily) (reset_hour_utc pool_daily) (assume_utc dt)
          (2 * DAY) = Inr (Some why) \<longrightarrow>
       fst (check_and_reset_internal pool_daily (2 * DAY)) = Inr () \<and>
       data_keys ?s1 = zeroed (data_keys pool_daily) \<and>
       data_last_reset_time ?s1 = Iso (utc (2 * DAY)) \<and>
       trace ?s1 = trace pool_daily @ [Log INFO, Log INFO] @ save_trace pool_daily \<and>
       trace (snd (check_and_reset_internal ?s1 (2 * DAY))) = trace ?s1 \<and>
       json_file (snd (check_and_reset_internal ?s1 (2 * DAY))) = json_file ?s1 \<and>
       data_keys (snd (check_and_reset_internal ?s1 (2 * DAY))) = data_keys ?s1"
    using t by (rule conjunct2)
  then have b: "fst (check_and_reset_internal pool_daily (2 * DAY)) = Inr ()"
    "data_keys ?s1 = zeroed (data_keys pool_daily)"
    "data_last_reset_time ?s1 = Iso (utc (2 * DAY))"
    using l n by blast+
  show ?thesis
    by (intro conjI) (rule v, rule u, rule b(1), simp add: b(2) z, rule b(3), rule a)
qed

section \<open>The key list of the constructor\<close>

lemma add_key_api_keys: "api_keys (snd (add_key s now a)) = api_keys s"
  using check_frame(6) [of s now]
  by (auto simp: add_key_def Let_def save_frame logging_def split: key_arg.splits prod.splits sum.splits)

lemma remove_key_api_keys: "api_keys (snd (remove_key s now k)) = api_keys s"
  using check_frame(6) [of s now]
  by (auto simp: remove_key_def Let_def save_frame logging_def split: prod.splits sum.splits)

lemma record_usage_api_keys: "api_keys (snd (record_usage s now mnow a)) = api_keys s"
  using check_frame(6) [of s now]
  by (auto simp: record_usage_def Let_def save_frame logging_def
      split: key_arg.splits prod.splits sum.splits)

lemma get_key_api_keys: "api_keys (snd (get_key s now mnow)) = api_keys s"
  using check_frame(6) [of s now]
  by (auto simp: get_key_def Let_def cleanup_frame split: prod.splits sum.splits option.splits)

lemma get_usage_stats_api_keys: "api_keys (snd (get_usage_stats s now)) = api_keys s"
  using check_frame(6) [of s now]
  by (auto simp: get_usage_stats_def split: prod.splits sum.splits)

lemma init_api_keys:
  "init fc w dl rpm rh ri now mnow = (Inr (), s) \<Longrightarrow> api_keys s = map fst (data_keys s)"
  by (auto simp: init_def Let_def split: prod.splits sum.splits if_splits)

lemma add_key_ok:
  assumes "fst (add_key s now a) = Inr ()"
  shows "\<exists>k s1. a = Str k \<and> k \<noteq> [] \<and> check_and_reset_internal s now = (Inr (), s1) \<and>
    \<not> has_key s1 k \<and>
    snd (add_key s now a) =
      save_data_internal (s1\<lparr>data_keys := data_keys s1 @ [(k, 0)],
                            trace := trace s1 @ [Log INFO]\<rparr>) now"
  using assms
  by (auto simp: add_key_def Let_def logging_def split: key_arg.splits prod.splits sum.splits if_splits)

lemma remove_key_ok:
  assumes "fst (remove_key s now k) = Inr ()"
  shows "\<exists>s1. check_and_reset_internal s now = (Inr (), s1) \<and> has_key s1 k \<and>
    snd (remove_key s now k) =
      save_data_internal
        (s1\<lparr>data_keys := filter (\<lambda>(k', u). k' \<noteq> k) (data_keys s1),
            key_timestamps := filter (\<lambda>(k', tss). k' \<noteq> k) (key_timestamps s1),
            trace := trace s1 @ [Log INFO]\<rparr>) now"
  using assms
  by (auto simp: remove_key_def Let_def logging_def split: prod.splits sum.splits if_splits)

lemma add_key_disagrees:
  assumes "api_keys s = map fst (data_keys s)" and "fst (add_key s now (Str k)) = Inr ()"
  shows "has_key (snd (add_key s now (Str k))) k \<and> k \<notin> set (api_keys (snd (add_key s now (Str k))))"
proof -
  obtain s1 where c: "check_and_reset_internal s now = (Inr (), s1)" and n: "\<not> has_key s1 k"
    and e: "snd (add_key s now (Str k)) =
      save_data_internal (s1\<lparr>data_keys := data_keys s1 @ [(k, 0)],
                            trace := trace s1 @ [Log INFO]\<rparr>) now"
    using add_key_ok [OF assms(2)] by auto
  have "has_key s k = has_key s1 k"
    using has_key_check [of s now k] c by simp
  then have "k \<notin> set (api_keys s)"
    using n assms(1) by (simp add: has_key_def)
  moreover have "has_key (snd (add_key s now (Str k))) k"
    by (simp add: e has_key_def save_frame)
  ultimately show ?thesis
    by (simp add: add_key_api_keys)
qed

lemma remove_key_disagrees:
  assumes "api_keys s = map fst (data_keys s)" and "fst (remove_key s now k) = Inr ()"
  shows "\<not> has_key (snd (remove_key s now k)) k \<and> k \<in> set (api_keys (snd (remove_key s now k)))"
proof -
  obtain s1 where c: "check_and_reset_internal s now = (Inr (), s1)" and n: "has_key s1 k"
    and e: "snd (remove_key s now k) =
      save_data_internal
        (s1\<lparr>data_keys := filter (\<lambda>(k', u). k' \<noteq> k) (data_keys s1),
            key_timestamps := filter (\<lambda>(k', tss). k' \<noteq> k) (key_timestamps s1),
            trace := trace s1 @ [Log INFO]\<rparr>) now"
    using remove_key_ok [OF assms(2)] by auto
  have "has_key s k = has_key s1 k"
    using has_key_check [of s now k] c by simp
  then have "k \<in> set (api_keys s)"
    using n assms(1) by (simp add: has_key_def)
  moreover have "\<not> has_key (snd (remove_key s now k)) k"
    by (auto simp: e has_key_def save_frame)
  ultimately show ?thesis
    by (simp add: remove_key_api_keys)
qed

text \<open>
  Claim C9. The constructor sets \<open>api_keys\<close> to the keys of the loaded mapping, and no
  operation writes it again: \<open>add_key\<close> and \<open>remove_key\<close> (and \<open>record_usage\<close>, \<open>get_key\<close>,
  \<open>get_usage_stats\<close>) return it as they found it, whether they succeed or raise. So
  after a successful \<open>add_key\<close> on a manager whose \<open>api_keys\<close> agreed with the mapping, the
  new key is in the mapping and not in \<open>api_keys\<close>, and after a successful \<open>remove_key\<close>
  the removed key is still in \<open>api_keys\<close> and no longer in the mapping.
\<close>

theorem api_keys_never_updated:
  "(\<forall>fc w dl rpm rh ri mnow s0.
      init fc w dl rpm rh ri now mnow = (Inr (), s0) \<longrightarrow> api_keys s0 = map fst (data_keys s0)) \<and>
   api_keys (snd (add_key s now a)) = api_keys s \<and>
   api_keys (snd (remove_key s now k)) = api_keys s \<and>
   api_keys (snd (record_usage s now mnow' a)) = api_keys s \<and>
   api_keys (snd (get_key s now mnow')) = api_keys s \<and>
   api_keys (snd (get_usage_stats s now)) = api_keys s \<and>
   (api_keys s = map fst (data_keys s) \<and> fst (add_key s now (Str k)) = Inr () \<longrightarrow>
      has_key (snd (add_key s now (Str k))) k \<and>
      k \<notin> set (api_keys (snd (add_key s now (Str k))))) \<and>
   (api_keys s = map fst (data_keys s) \<and> fst (remove_key s now k) = Inr () \<longrightarrow>
      \<not> has_key (snd (remove_key s now k)) k \<and>
      k \<in> set (api_keys (snd (remove_key s now k))))"
  using init_api_keys add_key_api_keys [of s now a] remove_key_api_keys [of s now k]
    record_usage_api_keys [of s now mnow' a] get_key_api_keys [of s now mnow']
    get_usage_stats_api_keys [of s now] add_key_disagrees [of s now k]
    remove_key_disagrees [of s now k]
  by blast

theorem api_keys_never_updated_witness:
  "api_keys pool_abc = map fst (data_keys pool_abc) \<and>
   fst (add_key pool_abc 0 (Str ''d'')) = Inr () \<and>
   has_key (snd (add_key pool_abc 0 (Str ''d''))) ''d'' \<and>
   api_keys (snd (add_key pool_abc 0 (Str ''d''))) = [''a'', ''b'', ''c''] \<and>
   fst (remove_key pool_abc 0 ''a'') = Inr () \<and>
   \<not> has_key (snd (remove_key pool_abc 0 ''a'')) ''a'' \<and>
   api_keys (snd (remove_key pool_abc 0 ''a'')) = [''a'', ''b'', ''c''] \<and>
   api_keys (snd (init (Some demo_file) True None (Some 20) None None HOUR 0))
     = map fst (data_keys (snd (init (Some demo_file) True None (Some 20) None None HOUR 0)))"
proof -
  have h: "check_and_reset_internal pool_abc 0 = (Inr (), pool_abc)"
    by (simp add: check_and_reset_internal_def pool_abc_def reset_needed_def)
  have g: "api_keys pool_abc = map fst (data_keys pool_abc)" "api_keys pool_abc = [''a'', ''b'', ''c'']"
    by (simp_all add: pool_abc_def)
  have k: "\<not> has_key pool_abc ''d''" "has_key pool_abc ''a''"
    by (simp_all add: has_key_def pool_abc_def)
  have a: "fst (add_key pool_abc 0 (Str ''d'')) = Inr ()"
    by (simp add: add_key_def h k Let_def)
  have r: "fst (remove_key pool_abc 0 ''a'') = Inr ()"
    by (simp add: remove_key_def h k Let_def)
  have i: "init (Some demo_file) True None (Some 20) None None HOUR 0 =
      (Inr (), snd (init (Some demo_file) True None (Some 20) None None HOUR 0))"
    by (simp add: init_demo_override)
  note t = api_keys_never_updated [where now = HOUR and s = pool_abc and a = "Str ''d''"
      and k = "''d''" and mnow' = 0]
    api_keys_never_updated [where now = 0 and s = pool_abc and a = "Str ''d''"
      and k = "''a''" and mnow' = 0]
  have 1: "api_keys (snd (init (Some demo_file) True None (Some 20) None None HOUR 0))
     = map fst (data_keys (snd (init (Some demo_file) True None (Some 20) None None HOUR 0)))"
    using t(1) i by blast
  have 2: "has_key (snd (add_key pool_abc 0 (Str ''d''))) ''d'' \<and>
     api_keys (snd (add_key pool_abc 0 (Str ''d''))) = api_keys pool_abc"
    using api_keys_never_updated [where now = 0 and s = pool_abc and a = "Str ''d''"
      and k = "''d''" and mnow' = 0] g(1) a by blast
  have 3: "\<not> has_key (snd (remove_key pool_abc 0 ''a'')) ''a'' \<and>
     api_keys (snd (remove_key pool_abc 0 ''a'')) = api_keys pool_abc"
    using t(2) g(1) r by blast
  show ?thesis
    using 1 2 3 g a r by simp
qed

section \<open>What a failing operation leaves behind\<close>

lemma add_key_duplicate:
  assumes "check_and_reset_internal s now = (Inr (), s1)" and "k \<noteq> []" and "has_key s k"
  shows "add_key s now (Str k) = (Inl (ApiKeyManagerError (msg_exists k)), s1)"
proof -
  have "has_key s1 k = has_key s k"
    using has_key_check [of s now k] assms(1) by simp
  then show ?thesis
    using assms by (simp add: add_key_def)
qed

lemma remove_key_absent:
  assumes "check_and_reset_internal s now = (Inr (), s1)" and "\<not> has_key s k"
  shows "remove_key s now k = (Inl (ApiKeyManagerError (msg_not_found k)), s1)"
proof -
  have "has_key s1 k = has_key s k"
    using has_key_check [of s now k] assms(1) by simp
  then show ?thesis
    using assms by (simp add: remove_key_def)
qed

lemma check_reset_effect:
  assumes "check_and_reset_internal s now = (r, s1)"
    and "data_last_reset_time s = Iso dt"
    and "reset_needed (reset_interval_days s) (reset_hour_utc s) (assume_utc dt) now
          = Inr (Some why)"
  shows "data_keys s1 = zeroed (data_keys s)"
    and "data_last_reset_time s1 = Iso (utc now)"
    and "trace s1 = trace s @ [Log INFO, Log INFO] @ save_trace s"
    and "writable s \<Longrightarrow> json_file s1 = Some (dump s1)"
  using check_reset [OF assms(2,3)] assms(1)
  by (auto simp: save_frame save_parsed_lrt save_parsed_trace save_trace_def save_parsed_file)

text \<open>
  Claim C10. When the reset check returns, giving \<open>s1\<close>, each of the three failing calls
  (\<open>add_key\<close> of a key that is there, \<open>remove_key\<close> of a key that is not, \<open>record_usage\<close> of
  a non-empty key that is not) raises its error and leaves the manager as \<open>s1\<close>, which has
  the keys of the manager before the call, in their order. It is the state after the
  check, not the state before: when a reset was due, every counter is zero, the last
  reset time is \<open>now\<close>, and the save was called (and the file written when it can be),
  although the operation failed.
\<close>

theorem failing_operations_after_reconcile:
  assumes "check_and_reset_internal s now = (Inr (), s1)"
  shows "(k \<noteq> [] \<and> has_key s k \<longrightarrow>
       add_key s now (Str k) = (Inl (ApiKeyManagerError (msg_exists k)), s1)) \<and>
    (\<not> has_key s k \<longrightarrow>
       remove_key s now k = (Inl (ApiKeyManagerError (msg_not_found k)), s1)) \<and>
    (k \<noteq> [] \<and> \<not> has_key s k \<longrightarrow>
       record_usage s now mnow (Str k) = (Inl (ApiKeyManagerError (msg_unknown k)), s1)) \<and>
    map fst (data_keys s1) = map fst (data_keys s) \<and>
    (\<forall>dt why. data_last_reset_time s = Iso dt \<and>
        reset_needed (reset_interval_days s) (reset_hour_utc s) (assume_utc dt) now
          = Inr (Some why) \<longrightarrow>
       data_keys s1 = zeroed (data_keys s) \<and>
       data_last_reset_time s1 = Iso (utc now) \<and>
       trace s1 = trace s @ [Log INFO, Log INFO] @ save_trace s \<and>
       (writable s \<longrightarrow> json_file s1 = Some (dump s1)))"
proof -
  have "map fst (data_keys s1) = map fst (data_keys s)"
    using check_frame(8) [of s now] assms by simp
  then show ?thesis
    using add_key_duplicate [OF assms, of k] remove_key_absent [OF assms, of k]
      record_usage_unknown [OF assms, of k mnow] check_reset_effect [OF assms]
    by blast
qed

theorem failing_operations_after_reconcile_witness:
  "fst (check_and_reset_internal pool_daily (2 * DAY)) = Inr () \<and>
   has_key pool_daily ''k1'' \<and> \<not> has_key pool_daily ''zz'' \<and>
   usage_today pool_daily ''k1'' = Some 7 \<and>
   fst (add_key pool_daily (2 * DAY) (Str ''k1'')) = Inl (ApiKeyManagerError (msg_exists ''k1'')) \<and>
   usage_today (snd (add_key pool_daily (2 * DAY) (Str ''k1''))) ''k1'' = Some 0 \<and>
   data_last_reset_time (snd (add_key pool_daily (2 * DAY) (Str ''k1''))) = Iso (utc (2 * DAY)) \<and>
   fst (remove_key pool_daily (2 * DAY) ''zz'') = Inl (ApiKeyManagerError (msg_not_found ''zz'')) \<and>
   data_keys (snd (remove_key pool_daily (2 * DAY) ''zz'')) = [(''k1'', 0), (''k2'', 0)] \<and>
   fst (record_usage pool_daily (2 * DAY) 0 (Str ''zz'')) = Inl (ApiKeyManagerError (msg_unknown ''zz'')) \<and>
   data_keys (snd (record_usage pool_daily (2 * DAY) 0 (Str ''zz''))) = [(''k1'', 0), (''k2'', 0)]"
proof -
  let ?s1 = "snd (check_and_reset_internal pool_daily (2 * DAY))"
  have l: "data_last_reset_time pool_daily = Iso (utc 0)"
    by (simp add: pool_daily_def)
  have n: "reset_needed (reset_interval_days pool_daily) (reset_hour_utc pool_daily)
             (assume_utc (utc 0)) (2 * DAY) = Inr (Some (IntervalDays 1))"
    by (simp add: pool_daily_def reset_needed_def assume_utc_def utc_def instant_def
        plus_days_def in_range_def MIN_WALL_def MAX_WALL_def DAY_def)
  have f: "fst (check_and_reset_internal pool_daily (2 * DAY)) = Inr ()"
    by (simp add: check_reset [OF l n])
  then have c: "check_and_reset_internal pool_daily (2 * DAY) = (Inr (), ?s1)"
    by (metis prod.collapse)
  have k: "has_key pool_daily ''k1''" "\<not> has_key pool_daily ''zz''"
    "usage_today pool_daily ''k1'' = Some 7"
    by (simp_all add: has_key_def usage_today_def pool_daily_def)
  have z: "zeroed (data_keys pool_daily) = [(''k1'', 0), (''k2'', 0)]"
    by (simp add: zeroed_def pool_daily_def)
  note t1 = failing_operations_after_reconcile [OF c, of "''k1''" 0]
  note t2 = failing_operations_after_reconcile [OF c, of "''zz''" 0]
  have a: "add_key pool_daily (2 * DAY) (Str ''k1'') = (Inl (ApiKeyManagerError (msg_exists ''k1'')), ?s1)"
    using t1 k by simp
  have b: "remove_key pool_daily (2 * DAY) ''zz'' = (Inl (ApiKeyManagerError (msg_not_found ''zz'')), ?s1)"
    "record_usage pool_daily (2 * DAY) 0 (Str ''zz'') = (Inl (ApiKeyManagerError (msg_unknown ''zz'')), ?s1)"
    using t2 k by simp_all
  have d: "data_keys ?s1 = zeroed (data_keys pool_daily) \<and> data_last_reset_time ?s1 = Iso (utc (2 * DAY))"
    using t1 l n by blast
  show ?thesis
    using f k a b d z by (simp add: usage_today_def)
qed

section \<open>The last reset time stays parseable\<close>

lemma save_is_iso:
  "is_iso (data_last_reset_time s) \<Longrightarrow> is_iso (data_last_reset_time (save_data_internal s now))"
  by (simp add: save_parsed_lrt)

lemma save_repairs:
  assumes "data_last_reset_time s = Empty \<or> data_last_reset_time s = Malformed"
  shows "data_last_reset_time (save_data_internal s now) = Iso (utc now)"
    and "trace (save_data_internal s now) = trace s @ [SaveCall, Log ERROR] @
           (if writable s then [] else [Log ERROR])"
    and "writable s \<Longrightarrow>
           json_file (save_data_internal s now) = Some (dump (save_data_internal s now))"
  using assms
  by (auto simp: save_data_internal_def Let_def logging_def isoformat_def dump_def)

lemma save_written_parses:
  assumes "json_file (save_data_internal s now) \<noteq> json_file s"
  shows "json_file (save_data_internal s now) = Some (dump (save_data_internal s now)) \<and>
    is_iso (data_last_reset_time (save_data_internal s now))"
  using assms
  by (cases "data_last_reset_time s")
     (auto simp: save_data_internal_def Let_def logging_def isoformat_def dump_def
      split: if_splits)

lemma add_key_invalid:
  "invalid_key a \<Longrightarrow> snd (add_key s now a) = s"
  by (auto simp: add_key_def invalid_key_def split: key_arg.splits)

lemma add_key_lrt:
  "\<not> invalid_key a \<Longrightarrow>
   data_last_reset_time (snd (add_key s now a))
     = data_last_reset_time (snd (check_and_reset_internal s now))"
  using check_ok_is_iso [of s now]
  by (auto simp: add_key_def invalid_key_def Let_def logging_def save_parsed_lrt
      split: key_arg.splits prod.splits sum.splits)

lemma remove_key_lrt:
  "data_last_reset_time (snd (remove_key s now k))
     = data_last_reset_time (snd (check_and_reset_internal s now))"
  using check_ok_is_iso [of s now]
  by (auto simp: remove_key_def Let_def logging_def save_parsed_lrt split: prod.splits sum.splits)

lemma get_key_lrt:
  "data_last_reset_time (snd (get_key s now mnow))
     = data_last_reset_time (snd (check_and_reset_internal s now))"
  by (auto simp: get_key_def Let_def cleanup_frame split: prod.splits sum.splits option.splits)

lemma record_usage_lrt:
  "\<not> invalid_key a \<Longrightarrow>
   data_last_reset_time (snd (record_usage s now mnow a))
     = data_last_reset_time (snd (check_and_reset_internal s now))"
  using check_ok_is_iso [of s now]
  by (auto simp: record_usage_def invalid_key_def Let_def logging_def save_parsed_lrt
      split: key_arg.splits prod.splits sum.splits)

lemma get_usage_stats_lrt:
  "data_last_reset_time (snd (get_usage_stats s now))
     = data_last_reset_time (snd (check_and_reset_internal s now))"
  by (auto simp: get_usage_stats_def split: prod.splits sum.splits)

lemma textual_not_truthy: "textual t \<Longrightarrow> t \<noteq> NonString True"
  by (auto simp: textual_def)

lemma check_aware:
  assumes "aware (data_last_reset_time s)"
  shows "aware (data_last_reset_time (snd (check_and_reset_internal s now)))"
proof -
  obtain dt where dt: "data_last_reset_time s = Iso dt"
    using assms by (auto simp: aware_def split: time_field.splits)
  from check_iso_state_cases [OF dt, of now] show ?thesis
    using assms by (auto simp: aware_def utc_def)
qed

lemma after_load_lrt:
  "fst (after_load s now mnow) = Inr () \<Longrightarrow>
   data_last_reset_time (snd (after_load s now mnow))
     = data_last_reset_time (snd (check_and_reset_internal s now))"
  by (auto simp: after_load_def cleanup_frame split: prod.splits sum.splits)

lemma load_lrt:
  assumes "fst (load_or_initialize_data s a now mnow) = Inr ()"
  shows "\<exists>s6. data_last_reset_time (snd (load_or_initialize_data s a now mnow))
             = data_last_reset_time (snd (check_and_reset_internal s6 now)) \<and>
           data_last_reset_time s6 =
             (case json_file s of
                Some (Object obj) \<Rightarrow>
                  (case f_last_reset_time obj of Iso dt \<Rightarrow> Iso dt | _ \<Rightarrow> Iso (utc now))
              | _ \<Rightarrow> Iso (utc now))"
proof (cases "json_file s")
  case None
  let ?s1 = "s\<lparr>daily_limit := cfg_daily_limit a,
               requests_per_minute := cfg_requests_per_minute a,
               reset_hour_utc := cfg_reset_hour_utc a,
               reset_interval_days := cfg_reset_interval_days a\<rparr>"
  let ?s4 = "save_data_internal (logging INFO (?s1\<lparr>data_keys := [],
               data_config := get_current_config ?s1,
               data_last_reset_time := isoformat (utc now)\<rparr>)) now"
  have l: "load_or_initialize_data s a now mnow = after_load ?s4 now mnow"
    using None by (simp add: load_or_initialize_data_def Let_def)
  have "data_last_reset_time ?s4 = Iso (utc now)"
    by (simp add: save_parsed_lrt logging_def isoformat_def)
  then show ?thesis
    using assms None after_load_lrt [of ?s4 now mnow] unfolding l by auto
next
  case (Some fc)
  show ?thesis
  proof (cases fc)
    case NotJson
    then show ?thesis using assms Some by (simp add: load_or_initialize_data_def)
  next
    case NotObject
    then show ?thesis using assms Some by (simp add: load_or_initialize_data_def)
  next
    case (Object obj)
    let ?lrt0 = "if f_last_reset_time obj = Absent then isoformat (utc now)
                 else f_last_reset_time obj"
    have str: "is_string ?lrt0"
      using assms Some Object by (auto simp: load_or_initialize_data_def Let_def split: if_splits)
    obtain s6 where l: "load_or_initialize_data s a now mnow = after_load s6 now mnow"
      and d: "data_last_reset_time s6 =
                (case fromisoformat ?lrt0 of Some dt \<Rightarrow> ?lrt0 | None \<Rightarrow> isoformat (utc now))"
      using Some Object str
      by (simp add: load_or_initialize_data_def Let_def logging_def)
    have "data_last_reset_time s6 =
        (case f_last_reset_time obj of Iso dt \<Rightarrow> Iso dt | _ \<Rightarrow> Iso (utc now))"
      unfolding d by (cases "f_last_reset_time obj") (simp_all add: isoformat_def)
    then show ?thesis
      using assms Some Object after_load_lrt [of s6 now mnow] unfolding l by auto
  qed
qed

lemma init_lrt:
  assumes "init fc w dl rpm rh ri now mnow = (Inr (), s)"
  shows "\<exists>s6. data_last_reset_time s = data_last_reset_time (snd (check_and_reset_internal s6 now)) \<and>
           data_last_reset_time s6 =
             (case fc of
                Some (Object obj) \<Rightarrow>
                  (case f_last_reset_time obj of Iso dt \<Rightarrow> Iso dt | _ \<Rightarrow> Iso (utc now))
              | _ \<Rightarrow> Iso (utc now))"
proof -
  let ?a = "\<lparr>cfg_daily_limit = dl, cfg_requests_per_minute = rpm,
             cfg_reset_hour_utc = rh, cfg_reset_interval_days = ri\<rparr>"
  let ?s0 = "\<lparr>daily_limit = dl, requests_per_minute = rpm, reset_hour_utc = rh,
               reset_interval_days = ri, data_keys = [], data_config = ?a,
               data_last_reset_time = Absent, key_timestamps = [], api_keys = [],
               json_file = fc, writable = w, trace = []\<rparr>"
  let ?l = "load_or_initialize_data ?s0 ?a now mnow"
  have "fst ?l = Inr ()" and "data_last_reset_time s = data_last_reset_time (snd ?l)"
    using assms by (auto simp: init_def Let_def split: prod.splits sum.splits if_splits)
  then show ?thesis
    using load_lrt [of ?s0 ?a now mnow] by simp
qed

lemma init_is_iso:
  assumes "init fc w dl rpm rh ri now mnow = (Inr (), s)"
  shows "is_iso (data_last_reset_time s)"
proof -
  obtain s6 where a: "data_last_reset_time s = data_last_reset_time (snd (check_and_reset_internal s6 now))"
    and b: "data_last_reset_time s6 =
             (case fc of
                Some (Object obj) \<Rightarrow>
                  (case f_last_reset_time obj of Iso dt \<Rightarrow> Iso dt | _ \<Rightarrow> Iso (utc now))
              | _ \<Rightarrow> Iso (utc now))"
    using init_lrt [OF assms] by blast
  have "\<exists>dt. data_last_reset_time s6 = Iso dt"
    unfolding b by (auto split: option.splits file_content.splits time_field.splits)
  then show ?thesis
    unfolding a using check_iso_is_iso by blast
qed

lemma check_now_cases:
  assumes "data_last_reset_time s = Iso (utc now)"
  shows "data_last_reset_time (snd (check_and_reset_internal s now)) = Iso (utc now)"
  using check_iso_state_cases [OF assms, of now] assms by auto

lemma init_repairs:
  assumes "init fc w dl rpm rh ri now mnow = (Inr (), s)"
    and "fc = None \<or>
      (\<exists>obj. fc = Some (Object obj) \<and>
         (f_last_reset_time obj = Absent \<or> f_last_reset_time obj = Empty \<or>
          f_last_reset_time obj = Malformed))"
  shows "data_last_reset_time s = Iso (utc now)"
proof -
  obtain s6 where a: "data_last_reset_time s = data_last_reset_time (snd (check_and_reset_internal s6 now))"
    and b: "data_last_reset_time s6 =
             (case fc of
                Some (Object obj) \<Rightarrow>
                  (case f_last_reset_time obj of Iso dt \<Rightarrow> Iso dt | _ \<Rightarrow> Iso (utc now))
              | _ \<Rightarrow> Iso (utc now))"
    using init_lrt [OF assms(1)] by blast
  have "data_last_reset_time s6 = Iso (utc now)"
    unfolding b using assms(2) by auto
  then show ?thesis
    unfolding a by (rule check_now_cases)
qed

lemma init_aware:
  assumes "init fc w dl rpm rh ri now mnow = (Inr (), s)"
    and "fc = Some (Object obj)" and "aware (f_last_reset_time obj)"
  shows "aware (data_last_reset_time s)"
proof -
  obtain s6 where a: "data_last_reset_time s = data_last_reset_time (snd (check_and_reset_internal s6 now))"
    and b: "data_last_reset_time s6 =
             (case fc of
                Some (Object obj) \<Rightarrow>
                  (case f_last_reset_time obj of Iso dt \<Rightarrow> Iso dt | _ \<Rightarrow> Iso (utc now))
              | _ \<Rightarrow> Iso (utc now))"
    using init_lrt [OF assms(1)] by blast
  have "aware (data_last_reset_time s6)"
    unfolding b using assms(2,3) by (auto simp: aware_def split: time_field.splits)
  then show ?thesis
    unfolding a by (rule check_aware)
qed

lemma add_key_saved:
  assumes "fst (add_key s now a) = Inr ()" and "writable s"
  shows "json_file (snd (add_key s now a)) = Some (dump (snd (add_key s now a)))"
proof -
  obtain k s1 where c: "check_and_reset_internal s now = (Inr (), s1)"
    and e: "snd (add_key s now a) =
      save_data_internal (s1\<lparr>data_keys := data_keys s1 @ [(k, 0)],
                            trace := trace s1 @ [Log INFO]\<rparr>) now"
    using add_key_ok [OF assms(1)] by auto
  have "is_iso (data_last_reset_time s1)" "writable s1"
    using check_ok_is_iso [of s now] check_frame(7) [of s now] c assms(2) by simp_all
  then show ?thesis
    unfolding e by (intro save_parsed_file) simp_all
qed

lemma remove_key_saved:
  assumes "fst (remove_key s now k) = Inr ()" and "writable s"
  shows "json_file (snd (remove_key s now k)) = Some (dump (snd (remove_key s now k)))"
proof -
  obtain s1 where c: "check_and_reset_internal s now = (Inr (), s1)"
    and e: "snd (remove_key s now k) =
      save_data_internal
        (s1\<lparr>data_keys := filter (\<lambda>(k', u). k' \<noteq> k) (data_keys s1),
            key_timestamps := filter (\<lambda>(k', tss). k' \<noteq> k) (key_timestamps s1),
            trace := trace s1 @ [Log INFO]\<rparr>) now"
    using remove_key_ok [OF assms(1)] by auto
  have "is_iso (data_last_reset_time s1)" "writable s1"
    using check_ok_is_iso [of s now] check_frame(7) [of s now] c assms(2) by simp_all
  then show ?thesis
    unfolding e by (intro save_parsed_file) simp_all
qed

lemma record_usage_saved:
  assumes "fst (record_usage s now mnow a) = Inr ()" and "\<not> invalid_key a" and "writable s"
  shows "json_file (snd (record_usage s now mnow a)) = Some (dump (snd (record_usage s now mnow a)))"
proof -
  obtain k where k: "a = Str k" "k \<noteq> []"
    using assms(2) by (cases a) (auto simp: invalid_key_def)
  obtain r s1 where c: "check_and_reset_internal s now = (r, s1)"
    by (cases "check_and_reset_internal s now") auto
  have r: "r = Inr ()"
    using assms(1) c k by (auto simp: record_usage_def split: sum.splits)
  have i: "is_iso (data_last_reset_time s1)" "writable s1"
    using check_ok_is_iso [of s now] check_frame(7) [of s now] c r assms(3) by simp_all
  have h: "has_key s k"
    using assms(1) c k r has_key_check [of s now k]
    by (auto simp: record_usage_def split: if_splits)
  show ?thesis
    unfolding k record_usage_known [OF c [unfolded r] k(2) h]
    using i by (auto intro!: save_parsed_file)
qed

lemma dump_parses:
  "is_iso (data_last_reset_time s) \<Longrightarrow> json_file s = Some (dump s) \<Longrightarrow>
   file_time_parses (json_file s)"
  by (simp add: file_time_parses_def dump_def)

lemma init_broken_time_file:
  "fst (init (Some broken_time_file) True None None None None 7 0) = Inr ()"
  by (simp add: init_def broken_time_file_def load_or_initialize_data_def after_load_def
      check_and_reset_internal_def reset_needed_def cleanup_timestamps_internal_def
      merge_config_def merge_param_def logging_def get_current_config_def Let_def
      empty_config_def isoformat_def)

lemma init_naive_time_file:
  "init (Some naive_time_file) True None None None None 7 0 = (Inr (), naive_manager)"
  by (simp add: init_def naive_time_file_def naive_manager_def load_or_initialize_data_def
      after_load_def check_and_reset_internal_def reset_needed_def
      cleanup_timestamps_internal_def merge_config_def merge_param_def logging_def
      get_current_config_def Let_def empty_config_def isoformat_def)

text \<open>
  A \<^verbatim>\<open>'last_reset_time'\<close> that is \<^verbatim>\<open>null\<close> is not repaired by the load: the
  \<^verbatim>\<open>AttributeError\<close> of \<^verbatim>\<open>.replace\<close> passes the handler for \<^verbatim>\<open>ValueError\<close> and ends the
  construction.
\<close>

lemma init_null_time_aborts:
  "fst (init (Some null_time_file) True None None None None 7 0)
     = Inl (ApiKeyManagerError ''Error loading data'')"
  by (simp add: init_def null_time_file_def load_or_initialize_data_def Let_def)

text \<open>
  Claim C6 fails as stated: a timestamp that parses and has no offset is kept as it is.
  The constructor takes it from the file, the reset check reads it as UTC without
  writing it back, and the save of the next \<open>add_key\<close> puts the same naive timestamp into
  the file again: the field of the manager is never timezone-aware.
\<close>

theorem naive_last_reset_time_is_kept:
  "init (Some naive_time_file) True None None None None 7 0 = (Inr (), naive_manager) \<and>
   data_last_reset_time naive_manager = Iso \<lparr>wall = 0, utcoffset = None\<rparr> \<and>
   \<not> aware (data_last_reset_time naive_manager) \<and>
   fst (add_key naive_manager 8 (Str ''d'')) = Inr () \<and>
   data_last_reset_time (snd (add_key naive_manager 8 (Str ''d'')))
     = Iso \<lparr>wall = 0, utcoffset = None\<rparr> \<and>
   \<not> aware (data_last_reset_time (snd (add_key naive_manager 8 (Str ''d'')))) \<and>
   json_file (snd (add_key naive_manager 8 (Str ''d''))) = Some (Object
     \<lparr>f_keys = Some [(''d'', Some 0)],
      f_config = Some \<lparr>cfg_daily_limit = None, cfg_requests_per_minute = None,
                       cfg_reset_hour_utc = None, cfg_reset_interval_days = None\<rparr>,
      f_last_reset_time = Iso \<lparr>wall = 0, utcoffset = None\<rparr>\<rparr>)"
proof -
  have l: "data_last_reset_time naive_manager = Iso \<lparr>wall = 0, utcoffset = None\<rparr>"
    by (simp add: naive_manager_def)
  have n: "\<not> aware (Iso \<lparr>wall = 0, utcoffset = None\<rparr>)"
    by (simp add: aware_def)
  have c: "check_and_reset_internal naive_manager 8 = (Inr (), naive_manager)"
    by (rule check_no_reset [OF l]) (simp add: naive_manager_def reset_needed_def)
  have k: "\<not> has_key naive_manager ''d''"
    by (simp add: has_key_def naive_manager_def)
  have a: "add_key naive_manager 8 (Str ''d'') =
      (Inr (), save_data_internal
         (naive_manager\<lparr>data_keys := [(''d'', 0)], trace := [Log INFO, Log INFO]\<rparr>) 8)"
    by (simp add: add_key_def c k Let_def logging_def) (simp add: naive_manager_def)
  have s: "save_data_internal
         (naive_manager\<lparr>data_keys := [(''d'', 0)], trace := [Log INFO, Log INFO]\<rparr>) 8 =
      naive_manager\<lparr>data_keys := [(''d'', 0)], trace := [Log INFO, Log INFO, SaveCall],
        json_file := Some (Object
          \<lparr>f_keys = Some [(''d'', Some 0)],
           f_config = Some \<lparr>cfg_daily_limit = None, cfg_requests_per_minute = None,
                            cfg_reset_hour_utc = None, cfg_reset_interval_days = None\<rparr>,
           f_last_reset_time = Iso \<lparr>wall = 0, utcoffset = None\<rparr>\<rparr>)\<rparr>"
    by (simp add: save_iso [where dt = "\<lparr>wall = 0, utcoffset = None\<rparr>"] l dump_def
        get_current_config_def)
       (simp add: naive_manager_def)
  show ?thesis
    by (intro conjI)
       (rule init_naive_time_file, rule l, simp add: l n, simp add: a, simp add: a s l,
        simp add: a s l n, simp add: a s)
qed

text \<open>
  Claim C6, amended. For a last reset time that is a string or is missing: after the
  reset check it parses, so it parses after every public operation that reaches the
  check, on success and on failure, and the two calls that return before the check (an
  invalid key given to \<open>add_key\<close> or \<open>record_usage\<close>) leave it as it was. A last reset
  time that is timezone-aware stays timezone-aware through the check, the save and
  every operation, and every value that a repair or a reset writes is the current time
  in UTC. A manager that the constructor returns has a last reset time that parses; it
  is the time of the load when there was no file or the file's value was missing or a
  string that did not parse, and it is timezone-aware when the file's value was. The
  save replaces a string that does not parse by the current time before it writes,
  whatever it newly writes has a time that parses, and the file that a successful
  \<open>add_key\<close>, \<open>remove_key\<close> or \<open>record_usage\<close> writes has one. When the check meets a
  non-empty string that does not parse, it logs one error, sets the field to \<open>now\<close> and
  returns: the counters, the file and the rest of the manager are untouched, and
  there is no save. For a missing or empty value and a positive (or unset) interval it
  leaves the same state: the field is \<open>now\<close>, one error is logged, nothing is reset or
  saved.
\<close>

theorem last_reset_time_stays_parseable:
  "(textual (data_last_reset_time s) \<longrightarrow>
      is_iso (data_last_reset_time (snd (check_and_reset_internal s now)))) \<and>
   (aware (data_last_reset_time s) \<longrightarrow>
      aware (data_last_reset_time (snd (check_and_reset_internal s now)))) \<and>
   (textual (data_last_reset_time s) \<and> \<not> invalid_key a \<longrightarrow>
      is_iso (data_last_reset_time (snd (add_key s now a)))) \<and>
   (invalid_key a \<longrightarrow> data_last_reset_time (snd (add_key s now a)) = data_last_reset_time s) \<and>
   (aware (data_last_reset_time s) \<longrightarrow> aware (data_last_reset_time (snd (add_key s now a)))) \<and>
   (textual (data_last_reset_time s) \<longrightarrow>
      is_iso (data_last_reset_time (snd (remove_key s now k)))) \<and>
   (aware (data_last_reset_time s) \<longrightarrow> aware (data_last_reset_time (snd (remove_key s now k)))) \<and>
   (textual (data_last_reset_time s) \<longrightarrow>
      is_iso (data_last_reset_time (snd (get_key s now mnow)))) \<and>
   (aware (data_last_reset_time s) \<longrightarrow> aware (data_last_reset_time (snd (get_key s now mnow)))) \<and>
   (textual (data_last_reset_time s) \<and> \<not> invalid_key a \<longrightarrow>
      is_iso (data_last_reset_time (snd (record_usage s now mnow a)))) \<and>
   (invalid_key a \<longrightarrow>
      data_last_reset_time (snd (record_usage s now mnow a)) = data_last_reset_time s) \<and>
   (aware (data_last_reset_time s) \<longrightarrow>
      aware (data_last_reset_time (snd (record_usage s now mnow a)))) \<and>
   (textual (data_last_reset_time s) \<longrightarrow>
      is_iso (data_last_reset_time (snd (get_usage_stats s now)))) \<and>
   (aware (data_last_reset_time s) \<longrightarrow>
      aware (data_last_reset_time (snd (get_usage_stats s now)))) \<and>
   (\<forall>fc w dl rpm rh ri s0. init fc w dl rpm rh ri now mnow = (Inr (), s0) \<longrightarrow>
      is_iso (data_last_reset_time s0) \<and>
      (fc = None \<or>
       (\<exists>obj. fc = Some (Object obj) \<and>
          (f_last_reset_time obj = Absent \<or> f_last_reset_time obj = Empty \<or>
           f_last_reset_time obj = Malformed)) \<longrightarrow>
         data_last_reset_time s0 = Iso (utc now)) \<and>
      (\<forall>obj. fc = Some (Object obj) \<and> aware (f_last_reset_time obj) \<longrightarrow>
         aware (data_last_reset_time s0))) \<and>
   (data_last_reset_time s = Empty \<or> data_last_reset_time s = Malformed \<longrightarrow>
      data_last_reset_time (save_data_internal s now) = Iso (utc now) \<and>
      (writable s \<longrightarrow> file_time_parses (json_file (save_data_internal s now)))) \<and>
   (json_file (save_data_internal s now) \<noteq> json_file s \<longrightarrow>
      is_iso (data_last_reset_time (save_data_internal s now)) \<and>
      file_time_parses (json_file (save_data_internal s now))) \<and>
   (aware (data_last_reset_time s) \<longrightarrow>
      data_last_reset_time (save_data_internal s now) = data_last_reset_time s) \<and>
   (writable s \<and> fst (add_key s now a) = Inr () \<longrightarrow>
      file_time_parses (json_file (snd (add_key s now a)))) \<and>
   (writable s \<and> fst (remove_key s now k) = Inr () \<longrightarrow>
      file_time_parses (json_file (snd (remove_key s now k)))) \<and>
   (writable s \<and> \<not> invalid_key a \<and> fst (record_usage s now mnow a) = Inr () \<longrightarrow>
      file_time_parses (json_file (snd (record_usage s now mnow a)))) \<and>
   (data_last_reset_time s = Malformed \<longrightarrow>
      check_and_reset_internal s now =
        (Inr (), s\<lparr>data_last_reset_time := Iso (utc now), trace := trace s @ [Log ERROR]\<rparr>)) \<and>
   ((data_last_reset_time s = Absent \<or> data_last_reset_time s = Empty) \<and>
    interval_valid (reset_interval_days s) \<longrightarrow>
      snd (check_and_reset_internal s now) =
        s\<lparr>data_last_reset_time := Iso (utc now), trace := trace s @ [Log ERROR]\<rparr>)"
proof -
  let ?c = "snd (check_and_reset_internal s now)"
  have ci: "textual (data_last_reset_time s) \<longrightarrow> is_iso (data_last_reset_time ?c)"
    using check_textual_is_iso [of s now] textual_not_truthy by blast
  have ca: "aware (data_last_reset_time s) \<longrightarrow> aware (data_last_reset_time ?c)"
    using check_aware by blast
  have a1: "textual (data_last_reset_time s) \<and> \<not> invalid_key a \<longrightarrow>
      is_iso (data_last_reset_time (snd (add_key s now a)))"
    using ci by (simp add: add_key_lrt)
  have a2: "invalid_key a \<longrightarrow> data_last_reset_time (snd (add_key s now a)) = data_last_reset_time s"
    by (simp add: add_key_invalid)
  have a3: "aware (data_last_reset_time s) \<longrightarrow> aware (data_last_reset_time (snd (add_key s now a)))"
    using ca by (cases "invalid_key a") (simp_all add: add_key_lrt add_key_invalid)
  have r1: "textual (data_last_reset_time s) \<longrightarrow>
      is_iso (data_last_reset_time (snd (remove_key s now k)))"
    using ci by (simp add: remove_key_lrt)
  have r2: "aware (data_last_reset_time s) \<longrightarrow> aware (data_last_reset_time (snd (remove_key s now k)))"
    using ca by (simp add: remove_key_lrt)
  have g1: "textual (data_last_reset_time s) \<longrightarrow>
      is_iso (data_last_reset_time (snd (get_key s now mnow)))"
    using ci by (simp add: get_key_lrt)
  have g2: "aware (data_last_reset_time s) \<longrightarrow> aware (data_last_reset_time (snd (get_key s now mnow)))"
    using ca by (simp add: get_key_lrt)
  have u1: "textual (data_last_reset_time s) \<and> \<not> invalid_key a \<longrightarrow>
      is_iso (data_last_reset_time (snd (record_usage s now mnow a)))"
    using ci by (simp add: record_usage_lrt)
  have u2: "invalid_key a \<longrightarrow>
      data_last_reset_time (snd (record_usage s now mnow a)) = data_last_reset_time s"
    by (simp add: record_usage_invalid)
  have u3: "aware (data_last_reset_time s) \<longrightarrow>
      aware (data_last_reset_time (snd (record_usage s now mnow a)))"
    using ca by (cases "invalid_key a") (simp_all add: record_usage_lrt record_usage_invalid)
  have t1: "textual (data_last_reset_time s) \<longrightarrow>
      is_iso (data_last_reset_time (snd (get_usage_stats s now)))"
    using ci by (simp add: get_usage_stats_lrt)
  have t2: "aware (data_last_reset_time s) \<longrightarrow>
      aware (data_last_reset_time (snd (get_usage_stats s now)))"
    using ca by (simp add: get_usage_stats_lrt)
  have 3: "\<forall>fc w dl rpm rh ri s0. init fc w dl rpm rh ri now mnow = (Inr (), s0) \<longrightarrow>
      is_iso (data_last_reset_time s0) \<and>
      (fc = None \<or>
       (\<exists>obj. fc = Some (Object obj) \<and>
          (f_last_reset_time obj = Absent \<or> f_last_reset_time obj = Empty \<or>
           f_last_reset_time obj = Malformed)) \<longrightarrow>
         data_last_reset_time s0 = Iso (utc now)) \<and>
      (\<forall>obj. fc = Some (Object obj) \<and> aware (f_last_reset_time obj) \<longrightarrow>
         aware (data_last_reset_time s0))"
  proof (intro allI impI conjI)
    fix fc w dl rpm rh ri s0
    assume i: "init fc w dl rpm rh ri now mnow = (Inr (), s0)"
    show "is_iso (data_last_reset_time s0)"
      using i by (rule init_is_iso)
    show "data_last_reset_time s0 = Iso (utc now)"
      if "fc = None \<or>
       (\<exists>obj. fc = Some (Object obj) \<and>
          (f_last_reset_time obj = Absent \<or> f_last_reset_time obj = Empty \<or>
           f_last_reset_time obj = Malformed))"
      using i that by (rule init_repairs)
    show "aware (data_last_reset_time s0)"
      if "fc = Some (Object obj) \<and> aware (f_last_reset_time obj)" for obj
      using init_aware [OF i] that by blast
  qed
  have 4: "data_last_reset_time s = Empty \<or> data_last_reset_time s = Malformed \<longrightarrow>
      data_last_reset_time (save_data_internal s now) = Iso (utc now) \<and>
      (writable s \<longrightarrow> file_time_parses (json_file (save_data_internal s now)))"
  proof
    assume e: "data_last_reset_time s = Empty \<or> data_last_reset_time s = Malformed"
    show "data_last_reset_time (save_data_internal s now) = Iso (utc now) \<and>
      (writable s \<longrightarrow> file_time_parses (json_file (save_data_internal s now)))"
      using save_repairs(1,3) [OF e, of now] dump_parses [of "save_data_internal s now"]
      by simp
  qed
  have 5: "json_file (save_data_internal s now) \<noteq> json_file s \<longrightarrow>
      is_iso (data_last_reset_time (save_data_internal s now)) \<and>
      file_time_parses (json_file (save_data_internal s now))"
    using save_written_parses [of s now] dump_parses [of "save_data_internal s now"] by blast
  have sa: "aware (data_last_reset_time s) \<longrightarrow>
      data_last_reset_time (save_data_internal s now) = data_last_reset_time s"
    by (auto simp: aware_def save_parsed_lrt split: time_field.splits)
  have 6: "writable s \<and> fst (add_key s now a) = Inr () \<longrightarrow>
      file_time_parses (json_file (snd (add_key s now a)))"
  proof
    assume h: "writable s \<and> fst (add_key s now a) = Inr ()"
    then obtain k s1 where c: "check_and_reset_internal s now = (Inr (), s1)"
      and e: "snd (add_key s now a) =
        save_data_internal (s1\<lparr>data_keys := data_keys s1 @ [(k, 0)],
                              trace := trace s1 @ [Log INFO]\<rparr>) now"
      using add_key_ok [of s now a] by auto
    have "is_iso (data_last_reset_time s1)"
      using check_ok_is_iso [of s now] c by simp
    then have "is_iso (data_last_reset_time (snd (add_key s now a)))"
      unfolding e by (simp add: save_parsed_lrt)
    then show "file_time_parses (json_file (snd (add_key s now a)))"
      using h add_key_saved [of s now a] dump_parses by blast
  qed
  have 7: "writable s \<and> fst (remove_key s now k) = Inr () \<longrightarrow>
      file_time_parses (json_file (snd (remove_key s now k)))"
  proof
    assume h: "writable s \<and> fst (remove_key s now k) = Inr ()"
    then obtain s1 where c: "check_and_reset_internal s now = (Inr (), s1)"
      using remove_key_ok [of s now k] by auto
    have "is_iso (data_last_reset_time (snd (remove_key s now k)))"
      using check_ok_is_iso [of s now] c by (simp add: remove_key_lrt)
    then show "file_time_parses (json_file (snd (remove_key s now k)))"
      using h remove_key_saved [of s now k] dump_parses by blast
  qed
  have 8: "writable s \<and> \<not> invalid_key a \<and> fst (record_usage s now mnow a) = Inr () \<longrightarrow>
      file_time_parses (json_file (snd (record_usage s now mnow a)))"
  proof
    assume h: "writable s \<and> \<not> invalid_key a \<and> fst (record_usage s now mnow a) = Inr ()"
    then obtain k where k: "a = Str k" "k \<noteq> []"
      by (cases a) (auto simp: invalid_key_def)
    have "fst (check_and_reset_internal s now) = Inr ()"
      using h k by (auto simp: record_usage_def split: prod.splits sum.splits)
    then have "is_iso (data_last_reset_time (snd (record_usage s now mnow a)))"
      using check_ok_is_iso [of s now] h by (simp add: record_usage_lrt)
    then show "file_time_parses (json_file (snd (record_usage s now mnow a)))"
      using h record_usage_saved [of s now mnow a] dump_parses by blast
  qed
  have 9: "data_last_reset_time s = Malformed \<longrightarrow>
      check_and_reset_internal s now =
        (Inr (), s\<lparr>data_last_reset_time := Iso (utc now), trace := trace s @ [Log ERROR]\<rparr>)"
    by (simp add: check_malformed)
  have 10: "(data_last_reset_time s = Absent \<or> data_last_reset_time s = Empty) \<and>
    interval_valid (reset_interval_days s) \<longrightarrow>
      snd (check_and_reset_internal s now) =
        s\<lparr>data_last_reset_time := Iso (utc now), trace := trace s @ [Log ERROR]\<rparr>"
    using check_repairs_missing [of s now] by blast
  show ?thesis
    by (intro conjI)
       (rule ci, rule ca, rule a1, rule a2, rule a3, rule r1, rule r2, rule g1, rule g2,
        rule u1, rule u2, rule u3, rule t1, rule t2, rule 3, rule 4, rule 5, rule sa,
        rule 6, rule 7, rule 8, rule 9, rule 10)
qed

theorem last_reset_time_stays_parseable_witness:
  "data_last_reset_time pool_broken = Malformed \<and> textual (data_last_reset_time pool_broken) \<and>
   writable pool_broken \<and> \<not> invalid_key (Str ''d'') \<and>
   check_and_reset_internal pool_broken 7 =
     (Inr (), pool_broken\<lparr>data_last_reset_time := Iso (utc 7), trace := [Log ERROR]\<rparr>) \<and>
   data_keys (snd (check_and_reset_internal pool_broken 7)) = data_keys pool_broken \<and>
   fst (add_key pool_broken 7 (Str ''d'')) = Inr () \<and>
   is_iso (data_last_reset_time (snd (add_key pool_broken 7 (Str ''d'')))) \<and>
   file_time_parses (json_file (snd (add_key pool_broken 7 (Str ''d'')))) \<and>
   data_last_reset_time (save_data_internal pool_broken 7) = Iso (utc 7) \<and>
   file_time_parses (json_file (save_data_internal pool_broken 7)) \<and>
   fst (init (Some broken_time_file) True None None None None 7 0) = Inr () \<and>
   data_last_reset_time (snd (init (Some broken_time_file) True None None None None 7 0))
     = Iso (utc 7) \<and>
   aware (data_last_reset_time pool_abc) \<and>
   aware (data_last_reset_time (snd (add_key pool_abc 0 (Str ''d''))))"
proof -
  note t = last_reset_time_stays_parseable [where s = pool_broken and now = 7 and a = "Str ''d''"
      and k = "''a''" and mnow = 0]
  note t' = last_reset_time_stays_parseable [where s = pool_abc and now = 0 and a = "Str ''d''"
      and k = "''a''" and mnow = 0]
  have m: "data_last_reset_time pool_broken = Malformed" "writable pool_broken"
    "trace pool_broken = []"
    by (simp_all add: pool_broken_def pool_abc_def)
  have x: "textual (data_last_reset_time pool_broken)"
    by (simp add: m textual_def)
  have v: "\<not> invalid_key (Str ''d'')"
    by (simp add: invalid_key_def)
  have "data_last_reset_time pool_broken = Malformed \<longrightarrow>
      check_and_reset_internal pool_broken 7 =
        (Inr (), pool_broken\<lparr>data_last_reset_time := Iso (utc 7),
                              trace := trace pool_broken @ [Log ERROR]\<rparr>)"
    using t by (elim conjE)
  then have c: "check_and_reset_internal pool_broken 7 =
     (Inr (), pool_broken\<lparr>data_last_reset_time := Iso (utc 7), trace := [Log ERROR]\<rparr>)"
    using m by simp
  have k: "\<not> has_key (pool_broken\<lparr>data_last_reset_time := Iso (utc 7), trace := [Log ERROR]\<rparr>) ''d''"
    by (simp add: has_key_def pool_broken_def pool_abc_def)
  have a: "fst (add_key pool_broken 7 (Str ''d'')) = Inr ()"
    by (simp add: add_key_def c k Let_def)
  have i: "init (Some broken_time_file) True None None None None 7 0 =
      (Inr (), snd (init (Some broken_time_file) True None None None None 7 0))"
    using init_broken_time_file by (metis prod.collapse)
  have b: "Some broken_time_file = None \<or>
     (\<exists>obj. Some broken_time_file = Some (Object obj) \<and>
        (f_last_reset_time obj = Absent \<or> f_last_reset_time obj = Empty \<or>
         f_last_reset_time obj = Malformed))"
    by (simp add: broken_time_file_def)
  have "\<forall>fc w dl rpm rh ri s0. init fc w dl rpm rh ri 7 0 = (Inr (), s0) \<longrightarrow>
      is_iso (data_last_reset_time s0) \<and>
      (fc = None \<or>
       (\<exists>obj. fc = Some (Object obj) \<and>
          (f_last_reset_time obj = Absent \<or> f_last_reset_time obj = Empty \<or>
           f_last_reset_time obj = Malformed)) \<longrightarrow>
         data_last_reset_time s0 = Iso (utc 7)) \<and>
      (\<forall>obj. fc = Some (Object obj) \<and> aware (f_last_reset_time obj) \<longrightarrow>
         aware (data_last_reset_time s0))"
    using t by (elim conjE)
  then have r: "data_last_reset_time (snd (init (Some broken_time_file) True None None None None 7 0))
     = Iso (utc 7)"
    using i b by blast
  have "textual (data_last_reset_time pool_broken) \<and> \<not> invalid_key (Str ''d'') \<longrightarrow>
      is_iso (data_last_reset_time (snd (add_key pool_broken 7 (Str ''d''))))"
    using t by (elim conjE)
  then have d1: "is_iso (data_last_reset_time (snd (add_key pool_broken 7 (Str ''d''))))"
    using x v by simp
  have "writable pool_broken \<and> fst (add_key pool_broken 7 (Str ''d'')) = Inr () \<longrightarrow>
      file_time_parses (json_file (snd (add_key pool_broken 7 (Str ''d''))))"
    using t by (elim conjE)
  then have d2: "file_time_parses (json_file (snd (add_key pool_broken 7 (Str ''d''))))"
    using m a by simp
  have "data_last_reset_time pool_broken = Empty \<or> data_last_reset_time pool_broken = Malformed \<longrightarrow>
      data_last_reset_time (save_data_internal pool_broken 7) = Iso (utc 7) \<and>
      (writable pool_broken \<longrightarrow> file_time_parses (json_file (save_data_internal pool_broken 7)))"
    using t by (elim conjE)
  then have e: "data_last_reset_time (save_data_internal pool_broken 7) = Iso (utc 7)"
    "file_time_parses (json_file (save_data_internal pool_broken 7))"
    using m by simp_all
  have f: "data_keys (snd (check_and_reset_internal pool_broken 7)) = data_keys pool_broken"
    by (simp add: c)
  have w: "aware (data_last_reset_time pool_abc)"
    by (simp add: aware_def pool_abc_def utc_def)
  have "aware (data_last_reset_time pool_abc) \<longrightarrow>
      aware (data_last_reset_time (snd (add_key pool_abc 0 (Str ''d''))))"
    using t' by (elim conjE)
  then have w': "aware (data_last_reset_time (snd (add_key pool_abc 0 (Str ''d''))))"
    using w by simp
  show ?thesis
    by (intro conjI)
       (rule m(1), rule x, rule m(2), rule v, rule c, rule f, rule a, rule d1, rule d2,
        rule e(1), rule e(2), rule init_broken_time_file, rule r, rule w, rule w')
qed

section \<open>Saving and loading again\<close>

lemma usage_default_dump:
  "map (\<lambda>(k, u). (k, case u of None \<Rightarrow> 0 | Some v \<Rightarrow> v)) (map (\<lambda>(k, u). (k, Some u)) ks) = ks"
  by (induction ks) auto

lemma usage_default_dump_comp:
  "map ((\<lambda>(k, u). (k, case u of None \<Rightarrow> 0 | Some v \<Rightarrow> v)) \<circ> (\<lambda>(k, u). (k, Some u))) ks = ks"
  by (induction ks) auto

lemma config_eta:
  "\<lparr>cfg_daily_limit = cfg_daily_limit c, cfg_requests_per_minute = cfg_requests_per_minute c,
    cfg_reset_hour_utc = cfg_reset_hour_utc c,
    cfg_reset_interval_days = cfg_reset_interval_days c\<rparr> = c"
  by (cases c) simp

lemma merge_param_saved: "fst (merge_param None x) = x"
  by (simp add: merge_param_def split: option.splits)

lemma save_file_content:
  assumes "data_last_reset_time s = Iso dt" and "writable s"
  shows "json_file (save_data_internal s now) = Some (Object
     \<lparr>f_keys = Some (map (\<lambda>(k, u). (k, Some u)) (data_keys s)),
      f_config = Some (get_current_config s),
      f_last_reset_time = Iso dt\<rparr>)"
  using assms by (simp add: save_iso [OF assms(1)] dump_def)

lemma init_from_saved:
  assumes "fc = Some (Object
     \<lparr>f_keys = Some (map (\<lambda>(k, u). (k, Some u)) ks),
      f_config = Some c,
      f_last_reset_time = Iso dt\<rparr>)"
    and "hour_valid (cfg_reset_hour_utc c)" and "interval_valid (cfg_reset_interval_days c)"
    and "reset_needed (cfg_reset_interval_days c) (cfg_reset_hour_utc c) (assume_utc dt) now
           = Inr None"
  shows "\<exists>tr. init fc w None None None None now mnow =
    (Inr (),
     \<lparr>daily_limit = cfg_daily_limit c, requests_per_minute = cfg_requests_per_minute c,
      reset_hour_utc = cfg_reset_hour_utc c, reset_interval_days = cfg_reset_interval_days c,
      data_keys = ks, data_config = c, data_last_reset_time = Iso dt,
      key_timestamps = [], api_keys = map fst ks, json_file = fc, writable = w, trace = tr\<rparr>)"
proof -
  let ?a = "\<lparr>cfg_daily_limit = None, cfg_requests_per_minute = None,
             cfg_reset_hour_utc = None, cfg_reset_interval_days = None\<rparr>"
  let ?s0 = "\<lparr>daily_limit = None, requests_per_minute = None, reset_hour_utc = None,
               reset_interval_days = None, data_keys = [], data_config = ?a,
               data_last_reset_time = Absent, key_timestamps = [], api_keys = [],
               json_file = fc, writable = w, trace = []\<rparr>"
  let ?tr = "snd (merge_param None (cfg_daily_limit c)) @
             snd (merge_param None (cfg_requests_per_minute c)) @
             snd (merge_param None (cfg_reset_hour_utc c)) @
             snd (merge_param None (cfg_reset_interval_days c)) @ [Log INFO]"
  let ?x = "\<lparr>daily_limit = cfg_daily_limit c, requests_per_minute = cfg_requests_per_minute c,
      reset_hour_utc = cfg_reset_hour_utc c, reset_interval_days = cfg_reset_interval_days c,
      data_keys = ks, data_config = c, data_last_reset_time = Iso dt,
      key_timestamps = [], api_keys = [], json_file = fc, writable = w, trace = ?tr\<rparr>"
  have l: "load_or_initialize_data ?s0 ?a now mnow = after_load ?x now mnow"
    by (simp add: load_or_initialize_data_def assms(1) Let_def merge_config_def
        merge_param_saved usage_default_dump usage_default_dump_comp logging_def
        get_current_config_def config_eta)
  have "check_and_reset_internal ?x now = (Inr (), ?x)"
    using assms(4) by (intro check_no_reset [where dt = dt]) simp_all
  moreover have "cleanup_timestamps_internal ?x mnow = ?x"
    by (simp add: cleanup_timestamps_internal_def)
  ultimately have "after_load ?x now mnow = (Inr (), ?x)"
    by (simp add: after_load_def)
  then have "init fc w None None None None now mnow = (Inr (), ?x\<lparr>api_keys := map fst ks\<rparr>)"
    using assms(2,3) l
    by (auto simp: init_def Let_def hour_valid_def interval_valid_def split: option.splits)
  then show ?thesis by simp
qed

lemma add_key_persisted:
  assumes "fst (add_key s now a) = Inr ()" and "writable s"
  shows "json_file (save_data_internal (snd (add_key s now a)) now') = json_file (snd (add_key s now a))"
proof -
  let ?t = "snd (add_key s now a)"
  obtain k s1 where c: "check_and_reset_internal s now = (Inr (), s1)"
    and e: "?t =
      save_data_internal (s1\<lparr>data_keys := data_keys s1 @ [(k, 0)],
                            trace := trace s1 @ [Log INFO]\<rparr>) now"
    using add_key_ok [OF assms(1)] by auto
  have i: "is_iso (data_last_reset_time s1)" "writable s1"
    using check_ok_is_iso [of s now] check_frame(7) [of s now] c assms(2) by simp_all
  have j: "is_iso (data_last_reset_time ?t)" "writable ?t"
    "data_config ?t = get_current_config ?t" "json_file ?t = Some (dump ?t)"
    unfolding e using i by (simp_all add: save_parsed get_current_config_def dump_def)
  show ?thesis
    using j by (simp add: save_parsed dump_def)
qed

lemma record_usage_persisted:
  assumes "fst (record_usage s now mnow a) = Inr ()" and "\<not> invalid_key a" and "writable s"
  shows "json_file (save_data_internal (snd (record_usage s now mnow a)) now')
           = json_file (snd (record_usage s now mnow a))"
proof -
  let ?t = "snd (record_usage s now mnow a)"
  obtain k where k: "a = Str k" "k \<noteq> []"
    using assms(2) by (cases a) (auto simp: invalid_key_def)
  obtain r s1 where c: "check_and_reset_internal s now = (r, s1)"
    by (cases "check_and_reset_internal s now") auto
  have r: "r = Inr ()"
    using assms(1) c k by (auto simp: record_usage_def split: sum.splits)
  have i: "is_iso (data_last_reset_time s1)" "writable s1"
    using check_ok_is_iso [of s now] check_frame(7) [of s now] c r assms(3) by simp_all
  have h: "has_key s k"
    using assms(1) c k r has_key_check [of s now k]
    by (auto simp: record_usage_def split: if_splits)
  have j: "is_iso (data_last_reset_time ?t)" "writable ?t"
    "data_config ?t = get_current_config ?t" "json_file ?t = Some (dump ?t)"
    unfolding k record_usage_known [OF c [unfolded r] k(2) h]
    using i by (simp_all add: save_parsed get_current_config_def dump_def)
  show ?thesis
    using j by (simp add: save_parsed dump_def)
qed

text \<open>
  Claim C8. Take a manager whose schedule passed the constructor's checks and whose
  last reset time parses, save it to a file that can be written, and construct a
  manager from that file with no limit given, at a time at which no reset is due. The
  constructor returns a manager with the same key records in the same order (so the
  same \<open>usage_today\<close> for every key), the same four limits and the same last reset time.
  A manager that a successful \<open>add_key\<close> or \<open>record_usage\<close> returns is already in the
  file: saving it again writes what is there.
\<close>

theorem save_then_load_roundtrip:
  assumes "writable s"
    and "hour_valid (reset_hour_utc s)" and "interval_valid (reset_interval_days s)"
    and "data_last_reset_time s = Iso dt"
    and "reset_needed (reset_interval_days s) (reset_hour_utc s) (assume_utc dt) now' = Inr None"
  shows "(\<exists>s2. init (json_file (save_data_internal s now)) w None None None None now' mnow
              = (Inr (), s2) \<and>
            data_keys s2 = data_keys s \<and>
            (\<forall>k. usage_today s2 k = usage_today s k) \<and>
            daily_limit s2 = daily_limit s \<and>
            requests_per_minute s2 = requests_per_minute s \<and>
            reset_hour_utc s2 = reset_hour_utc s \<and>
            reset_interval_days s2 = reset_interval_days s \<and>
            data_config s2 = get_current_config s \<and>
            data_last_reset_time s2 = data_last_reset_time s) \<and>
    (\<forall>t a. fst (add_key s t a) = Inr () \<longrightarrow>
       json_file (save_data_internal (snd (add_key s t a)) now) = json_file (snd (add_key s t a))) \<and>
    (\<forall>t m a. fst (record_usage s t m a) = Inr () \<and> \<not> invalid_key a \<longrightarrow>
       json_file (save_data_internal (snd (record_usage s t m a)) now)
         = json_file (snd (record_usage s t m a)))"
proof -
  let ?c = "get_current_config s"
  have c: "cfg_daily_limit ?c = daily_limit s" "cfg_requests_per_minute ?c = requests_per_minute s"
    "cfg_reset_hour_utc ?c = reset_hour_utc s" "cfg_reset_interval_days ?c = reset_interval_days s"
    by (simp_all add: get_current_config_def)
  obtain tr where "init (json_file (save_data_internal s now)) w None None None None now' mnow =
    (Inr (),
     \<lparr>daily_limit = cfg_daily_limit ?c, requests_per_minute = cfg_requests_per_minute ?c,
      reset_hour_utc = cfg_reset_hour_utc ?c, reset_interval_days = cfg_reset_interval_days ?c,
      data_keys = data_keys s, data_config = ?c, data_last_reset_time = Iso dt,
      key_timestamps = [], api_keys = map fst (data_keys s),
      json_file = json_file (save_data_internal s now), writable = w, trace = tr\<rparr>)"
    using init_from_saved [OF save_file_content [OF assms(4,1), of now], of now' w mnow]
      assms(2,3,5) unfolding c by blast
  then have 1: "\<exists>s2. init (json_file (save_data_internal s now)) w None None None None now' mnow
              = (Inr (), s2) \<and>
            data_keys s2 = data_keys s \<and>
            (\<forall>k. usage_today s2 k = usage_today s k) \<and>
            daily_limit s2 = daily_limit s \<and>
            requests_per_minute s2 = requests_per_minute s \<and>
            reset_hour_utc s2 = reset_hour_utc s \<and>
            reset_interval_days s2 = reset_interval_days s \<and>
            data_config s2 = get_current_config s \<and>
            data_last_reset_time s2 = data_last_reset_time s"
    using assms(4) by (simp add: c usage_today_def)
  show ?thesis
    using 1 add_key_persisted [OF _ assms(1)] record_usage_persisted [OF _ _ assms(1)]
    by blast
qed

theorem save_then_load_roundtrip_witness:
  "writable pool_hour3 \<and> hour_valid (reset_hour_utc pool_hour3) \<and>
   interval_valid (reset_interval_days pool_hour3) \<and>
   data_last_reset_time pool_hour3 = Iso (utc (4 * HOUR)) \<and>
   reset_needed (reset_interval_days pool_hour3) (reset_hour_utc pool_hour3)
     (assume_utc (utc (4 * HOUR))) (5 * HOUR) = Inr None \<and>
   fst (init (json_file (save_data_internal pool_hour3 (4 * HOUR))) True None None None None
          (5 * HOUR) 0) = Inr () \<and>
   data_keys (snd (init (json_file (save_data_internal pool_hour3 (4 * HOUR))) True
          None None None None (5 * HOUR) 0)) = [(''k'', 5)] \<and>
   reset_hour_utc (snd (init (json_file (save_data_internal pool_hour3 (4 * HOUR))) True
          None None None None (5 * HOUR) 0)) = Some 3"
proof -
  have w: "writable pool_hour3"
    by (simp add: pool_hour3_def)
  have v: "hour_valid (reset_hour_utc pool_hour3)" "interval_valid (reset_interval_days pool_hour3)"
    by (simp_all add: pool_hour3_def hour_valid_def interval_valid_def)
  have l: "data_last_reset_time pool_hour3 = Iso (utc (4 * HOUR))"
    by (simp add: pool_hour3_def)
  have n: "reset_needed (reset_interval_days pool_hour3) (reset_hour_utc pool_hour3)
     (assume_utc (utc (4 * HOUR))) (5 * HOUR) = Inr None"
    by (simp add: pool_hour3_def reset_needed_def assume_utc_def utc_def instant_def
        plus_days_def combine_date_hour_def in_range_def MIN_WALL_def MAX_WALL_def
        DAY_def HOUR_def)
  have f: "data_keys pool_hour3 = [(''k'', 5)]" "reset_hour_utc pool_hour3 = Some 3"
    by (simp_all add: pool_hour3_def)
  have "\<exists>s2. init (json_file (save_data_internal pool_hour3 (4 * HOUR))) True
              None None None None (5 * HOUR) 0 = (Inr (), s2) \<and>
            data_keys s2 = data_keys pool_hour3 \<and>
            (\<forall>k. usage_today s2 k = usage_today pool_hour3 k) \<and>
            daily_limit s2 = daily_limit pool_hour3 \<and>
            requests_per_minute s2 = requests_per_minute pool_hour3 \<and>
            reset_hour_utc s2 = reset_hour_utc pool_hour3 \<and>
            reset_interval_days s2 = reset_interval_days pool_hour3 \<and>
            data_config s2 = get_current_config pool_hour3 \<and>
            data_last_reset_time s2 = data_last_reset_time pool_hour3"
    using save_then_load_roundtrip [OF w v l n, of "4 * HOUR" True 0] by (rule conjunct1)
  then obtain s2 where h: "init (json_file (save_data_internal pool_hour3 (4 * HOUR))) True
              None None None None (5 * HOUR) 0 = (Inr (), s2) \<and>
            data_keys s2 = data_keys pool_hour3 \<and>
            (\<forall>k. usage_today s2 k = usage_today pool_hour3 k) \<and>
            daily_limit s2 = daily_limit pool_hour3 \<and>
            requests_per_minute s2 = requests_per_minute pool_hour3 \<and>
            reset_hour_utc s2 = reset_hour_utc pool_hour3 \<and>
            reset_interval_days s2 = reset_interval_days pool_hour3 \<and>
            data_config s2 = get_current_config pool_hour3 \<and>
            data_last_reset_time s2 = data_last_reset_time pool_hour3" ..
  have i: "init (json_file (save_data_internal pool_hour3 (4 * HOUR))) True
              None None None None (5 * HOUR) 0 = (Inr (), s2)"
    using h by (elim conjE)
  have d: "data_keys s2 = data_keys pool_hour3"
    using h by (elim conjE)
  have r: "reset_hour_utc s2 = reset_hour_utc pool_hour3"
    using h by (elim conjE)
  show ?thesis
    using w v l n f by (simp add: i d r)
qed

end
